theory Spec2Isabelle
  imports Main "HOL-Library.Word"
begin

unbundle bit_operations_syntax

section \<open>Data model of \<^verbatim>\<open>chip8.c\<close>\<close>

text \<open>
  The structs of the emulator as records. \<^verbatim>\<open>uint8_t\<close> and \<^verbatim>\<open>uint16_t\<close> values are
  \<open>8 word\<close> and \<open>16 word\<close>; the fixed-size arrays are lists whose lengths are recorded in
  \<open>wf_chip8\<close>. The stack pointer \<^verbatim>\<open>uint16_t *stack_ptr\<close> is kept as its offset, in
  elements, from \<^verbatim>\<open>&stack[0]\<close>.
\<close>

datatype emulator_state_t = QUIT | RUNNING | PAUSED

record config_t =
  window_width :: "32 word"
  window_height :: "32 word"
  fg_color :: "32 word"
  bg_color :: "32 word"
  scale_factor :: "32 word"
  pixel_outlines :: bool
  clock_speed :: "32 word"

record instruction_t =
  opcode :: "16 word"
  NNN :: "16 word"
  NN :: "8 word"
  N :: "8 word"
  X :: "8 word"
  Y :: "8 word"

record chip8_t =
  state :: emulator_state_t
  ram :: "8 word list"
  display :: "bool list"
  stack :: "16 word list"
  stack_ptr :: int
  V :: "8 word list"
  PC :: "16 word"
  I :: "16 word"
  delay_timer :: "8 word"
  sound_timer :: "8 word"
  keypad :: "bool list"
  rom_name :: string
  inst :: instruction_t
  draw :: bool

definition wf_chip8 :: "chip8_t \<Rightarrow> bool" where
  "wf_chip8 c \<longleftrightarrow>
     length (ram c) = 4096 \<and> length (display c) = 2048 \<and> length (stack c) = 12 \<and>
     length (V c) = 16 \<and> length (keypad c) = 16"

text \<open>
  \<^verbatim>\<open>emulate_chip8\<close> returns \<^verbatim>\<open>void\<close> and has no failure path of its own. Where the C code
  indexes an array outside its bounds or divides by zero, C assigns the execution no
  behaviour; the model makes each such step an explicit outcome \<open>Inl u\<close> instead of
  inventing a result.
\<close>

datatype undefined_behaviour =
    RamOutOfBounds nat
  | StackOutOfBounds int
  | DisplayOutOfBounds nat
  | DivisionByZero

definition ram_read :: "chip8_t \<Rightarrow> nat \<Rightarrow> undefined_behaviour + 8 word" where
  "ram_read c a = (if a < 4096 then Inr (ram c ! a) else Inl (RamOutOfBounds a))"

definition ram_write :: "chip8_t \<Rightarrow> nat \<Rightarrow> 8 word \<Rightarrow> undefined_behaviour + chip8_t" where
  "ram_write c a v =
     (if a < 4096 then Inr (c\<lparr>ram := (ram c)[a := v]\<rparr>) else Inl (RamOutOfBounds a))"

text \<open>Accesses to \<^verbatim>\<open>stack[12]\<close> through a pointer at offset \<open>i\<close>.\<close>

definition stack_read :: "chip8_t \<Rightarrow> int \<Rightarrow> undefined_behaviour + 16 word" where
  "stack_read c i =
     (if 0 \<le> i \<and> i < 12 then Inr (stack c ! nat i) else Inl (StackOutOfBounds i))"

definition stack_write :: "chip8_t \<Rightarrow> int \<Rightarrow> 16 word \<Rightarrow> undefined_behaviour + chip8_t" where
  "stack_write c i v =
     (if 0 \<le> i \<and> i < 12 then Inr (c\<lparr>stack := (stack c)[nat i := v]\<rparr>)
      else Inl (StackOutOfBounds i))"

text \<open>\<^verbatim>\<open>*chip8->stack_ptr++ = v\<close>: store through the pointer, then advance it.\<close>

definition stack_push :: "chip8_t \<Rightarrow> 16 word \<Rightarrow> undefined_behaviour + chip8_t" where
  "stack_push c v =
     (case stack_write c (stack_ptr c) v of
        Inl u \<Rightarrow> Inl u
      | Inr c1 \<Rightarrow> Inr (c1\<lparr>stack_ptr := stack_ptr c1 + 1\<rparr>))"

text \<open>\<^verbatim>\<open>*--chip8->stack_ptr\<close>: step the pointer back, then read through it.\<close>

definition stack_pop :: "chip8_t \<Rightarrow> undefined_behaviour + (chip8_t \<times> 16 word)" where
  "stack_pop c =
     (let c1 = c\<lparr>stack_ptr := stack_ptr c - 1\<rparr> in
      case stack_read c1 (stack_ptr c1) of
        Inl u \<Rightarrow> Inl u
      | Inr v \<Rightarrow> Inr (c1, v))"

section \<open>Fetch and decode\<close>

text \<open>\<^verbatim>\<open>chip8->ram[chip8->PC] << 8 | chip8->ram[chip8->PC+1]\<close>\<close>

definition fetch :: "chip8_t \<Rightarrow> undefined_behaviour + 16 word" where
  "fetch c =
     (case ram_read c (unat (PC c)) of
        Inl u \<Rightarrow> Inl u
      | Inr hi \<Rightarrow>
          (case ram_read c (unat (PC c) + 1) of
             Inl u \<Rightarrow> Inl u
           | Inr lo \<Rightarrow> Inr (push_bit 8 (ucast hi) OR ucast lo)))"

definition decode :: "16 word \<Rightarrow> instruction_t" where
  "decode w =
     \<lparr> opcode = w,
       NNN = w AND 0x0FFF,
       NN = ucast (w AND 0x00FF),
       N = ucast (w AND 0x000F),
       X = ucast (drop_bit 8 (w AND 0x0F00)),
       Y = ucast (drop_bit 4 (w AND 0x00F0)) \<rparr>"

section \<open>The instructions\<close>

text \<open>Group \<^verbatim>\<open>0x0\<close>: clear screen, return from subroutine.\<close>

definition exec_0 :: "chip8_t \<Rightarrow> undefined_behaviour + chip8_t" where
  "exec_0 c =
     (if NN (inst c) = 0xE0
      then Inr (c\<lparr>display := replicate 2048 False, draw := True\<rparr>)
      else if NN (inst c) = 0xEE
      then (case stack_pop c of
              Inl u \<Rightarrow> Inl u
            | Inr (c1, v) \<Rightarrow> Inr (c1\<lparr>PC := v\<rparr>))
      else Inr c)"

text \<open>Group \<^verbatim>\<open>0x8\<close>: the register-register ALU. Each case writes the flag first.\<close>

definition exec_8 :: "chip8_t \<Rightarrow> chip8_t" where
  "exec_8 c =
     (let n = N (inst c); x = unat (X (inst c)); y = unat (Y (inst c)) in
      if n = 0x0 then c\<lparr>V := (V c)[x := V c ! y]\<rparr>
      else if n = 0x1 then c\<lparr>V := (V c)[x := V c ! x OR V c ! y]\<rparr>
      else if n = 0x2 then c\<lparr>V := (V c)[x := V c ! x AND V c ! y]\<rparr>
      else if n = 0x3 then c\<lparr>V := (V c)[x := V c ! x XOR V c ! y]\<rparr>
      else if n = 0x4 then
        (let c1 = c\<lparr>V := (V c)[0xF := (if unat (V c ! y) > 0xFF - unat (V c ! x) then 1 else 0)]\<rparr>
         in c1\<lparr>V := (V c1)[x := V c1 ! x + V c1 ! y]\<rparr>)
      else if n = 0x5 then
        (let c1 = c\<lparr>V := (V c)[0xF := (if V c ! y \<le> V c ! x then 1 else 0)]\<rparr>
         in c1\<lparr>V := (V c1)[x := V c1 ! x - V c1 ! y]\<rparr>)
      else if n = 0x6 then
        (let c1 = c\<lparr>V := (V c)[0xF := V c ! x AND 1]\<rparr>
         in c1\<lparr>V := (V c1)[x := drop_bit 1 (V c1 ! x)]\<rparr>)
      else if n = 0x7 then
        (let c1 = c\<lparr>V := (V c)[0xF := (if V c ! x \<le> V c ! y then 1 else 0)]\<rparr>
         in c1\<lparr>V := (V c1)[x := V c1 ! y - V c1 ! x]\<rparr>)
      else if n = 0xE then
        (let c1 = c\<lparr>V := (V c)[0xF := drop_bit 7 (V c ! x AND 0x80)]\<rparr>
         in c1\<lparr>V := (V c1)[x := push_bit 1 (V c1 ! x)]\<rparr>)
      else c)"

text \<open>
  \<^verbatim>\<open>0xDXYN\<close>, inner loop: \<^verbatim>\<open>for (int8_t j = 7; j >= 0; j--)\<close> over the bits of one sprite
  byte. \<^verbatim>\<open>X_coord\<close> and \<^verbatim>\<open>Y_coord\<close> are \<^verbatim>\<open>uint8_t\<close>; the display index is computed in
  \<^verbatim>\<open>uint32_t\<close>.
\<close>

function draw_bits ::
  "config_t \<Rightarrow> 8 word \<Rightarrow> nat \<Rightarrow> nat \<Rightarrow> int \<Rightarrow> chip8_t \<Rightarrow> undefined_behaviour + chip8_t" where
  "draw_bits config sprite_data Y_coord X_coord j c =
     (if j \<ge> 0 then
        (let idx = (Y_coord * unat (window_width config) + X_coord) mod 2 ^ 32 in
         if idx < 2048 then
           (let pixel = display c ! idx;
                sprite_bit = (sprite_data AND push_bit (nat j) 1 \<noteq> 0);
                c1 = (if sprite_bit \<and> pixel then c\<lparr>V := (V c)[0xF := 1]\<rparr> else c);
                c2 = c1\<lparr>display := (display c1)[idx := (pixel \<noteq> sprite_bit)]\<rparr>;
                X_next = (X_coord + 1) mod 256
            in if X_next \<ge> unat (window_width config) then Inr c2
               else draw_bits config sprite_data Y_coord X_next (j - 1) c2)
         else Inl (DisplayOutOfBounds idx))
      else Inr c)"
  by pat_completeness auto
termination
  by (relation "measure (\<lambda>(config, sprite_data, Y_coord, X_coord, j, c). nat (j + 1))") auto

text \<open>
  Outer loop: \<^verbatim>\<open>for (uint8_t i = 0; i < chip8->inst.N; i++)\<close> over the sprite rows
  (\<open>i < N \<le> 255\<close>, so \<open>i + 1\<close> does not wrap).
\<close>

function draw_rows ::
  "config_t \<Rightarrow> 8 word \<Rightarrow> nat \<Rightarrow> nat \<Rightarrow> nat \<Rightarrow> chip8_t \<Rightarrow> undefined_behaviour + chip8_t" where
  "draw_rows config n org_X Y_coord i c =
     (if i < unat n then
        (case ram_read c (unat (I c) + i) of
           Inl u \<Rightarrow> Inl u
         | Inr sprite_data \<Rightarrow>
             (case draw_bits config sprite_data Y_coord org_X 7 c of
                Inl u \<Rightarrow> Inl u
              | Inr c1 \<Rightarrow>
                  (let Y_next = (Y_coord + 1) mod 256
                   in if Y_next \<ge> unat (window_height config) then Inr c1
                      else draw_rows config n org_X Y_next (i + 1) c1)))
      else Inr c)"
  by pat_completeness auto
termination
  by (relation "measure (\<lambda>(config, n, org_X, Y_coord, i, c). unat n - i)") auto

definition exec_D :: "config_t \<Rightarrow> chip8_t \<Rightarrow> undefined_behaviour + chip8_t" where
  "exec_D config c =
     (if window_width config = 0 \<or> window_height config = 0 then Inl DivisionByZero
      else
        (let X_coord = (unat (V c ! unat (X (inst c))) mod unat (window_width config)) mod 256;
             Y_coord = (unat (V c ! unat (Y (inst c))) mod unat (window_height config)) mod 256;
             org_X = X_coord;
             c1 = c\<lparr>V := (V c)[0xF := 0]\<rparr>
         in case draw_rows config (N (inst c)) org_X Y_coord 0 c1 of
              Inl u \<Rightarrow> Inl u
            | Inr c2 \<Rightarrow> Inr (c2\<lparr>draw := True\<rparr>)))"

text \<open>Group \<^verbatim>\<open>0xE\<close>: skip on key state.\<close>

definition exec_E :: "chip8_t \<Rightarrow> chip8_t" where
  "exec_E c =
     (let k = unat (V c ! unat (X (inst c)) AND 0x0F) in
      if NN (inst c) = 0x9E then (if keypad c ! k then c\<lparr>PC := PC c + 2\<rparr> else c)
      else if NN (inst c) = 0xA1 then (if \<not> keypad c ! k then c\<lparr>PC := PC c + 2\<rparr> else c)
      else c)"

text \<open>
  \<^verbatim>\<open>0xFX0A\<close>: the scan \<^verbatim>\<open>for (uint8_t i = 0; i < sizeof chip8->keypad; i++)\<close>, threading the
  local \<^verbatim>\<open>key_pressed\<close>.
\<close>

function key_scan :: "nat \<Rightarrow> chip8_t \<Rightarrow> bool \<Rightarrow> chip8_t \<times> bool" where
  "key_scan i c key_pressed =
     (if i < 16 then
        (if keypad c ! i
         then (c\<lparr>V := (V c)[unat (X (inst c)) := of_nat i]\<rparr>, True)
         else key_scan (i + 1) c key_pressed)
      else (c, key_pressed))"
  by pat_completeness auto
termination
  by (relation "measure (\<lambda>(i, c, key_pressed). 16 - i)") auto

definition exec_FX0A :: "chip8_t \<Rightarrow> chip8_t" where
  "exec_FX0A c =
     (let key_pressed = True;
          (c1, key_pressed1) = key_scan 0 c key_pressed
      in if \<not> key_pressed1 then c1\<lparr>PC := PC c1 - 2\<rparr> else c1)"

text \<open>\<^verbatim>\<open>0xFX33\<close>: binary-coded decimal of \<^verbatim>\<open>V[X]\<close>, units first.\<close>

definition exec_FX33 :: "chip8_t \<Rightarrow> undefined_behaviour + chip8_t" where
  "exec_FX33 c =
     (let val0 = V c ! unat (X (inst c)) in
      case ram_write c (unat (I c) + 2) (val0 mod 10) of
        Inl u \<Rightarrow> Inl u
      | Inr c1 \<Rightarrow>
          (let val1 = val0 div 10 in
           case ram_write c1 (unat (I c1) + 1) (val1 mod 10) of
             Inl u \<Rightarrow> Inl u
           | Inr c2 \<Rightarrow>
               (let val2 = val1 div 10 in
                ram_write c2 (unat (I c2)) val2)))"

text \<open>
  \<^verbatim>\<open>0xFX55\<close> and \<^verbatim>\<open>0xFX65\<close>: \<^verbatim>\<open>for (uint8_t i = 0; i <= chip8->inst.X; i++)\<close>; the decoder
  gives \<open>X \<le> 15\<close>, so \<open>i + 1\<close> does not wrap.
\<close>

function store_regs :: "nat \<Rightarrow> nat \<Rightarrow> chip8_t \<Rightarrow> undefined_behaviour + chip8_t" where
  "store_regs x i c =
     (if i \<le> x then
        (case ram_write c (unat (I c) + i) (V c ! i) of
           Inl u \<Rightarrow> Inl u
         | Inr c1 \<Rightarrow> store_regs x (i + 1) c1)
      else Inr c)"
  by pat_completeness auto
termination
  by (relation "measure (\<lambda>(x, i, c). x + 1 - i)") auto

function load_regs :: "nat \<Rightarrow> nat \<Rightarrow> chip8_t \<Rightarrow> undefined_behaviour + chip8_t" where
  "load_regs x i c =
     (if i \<le> x then
        (case ram_read c (unat (I c) + i) of
           Inl u \<Rightarrow> Inl u
         | Inr v \<Rightarrow> load_regs x (i + 1) (c\<lparr>V := (V c)[i := v]\<rparr>))
      else Inr c)"
  by pat_completeness auto
termination
  by (relation "measure (\<lambda>(x, i, c). x + 1 - i)") auto

text \<open>
  Group \<^verbatim>\<open>0xF\<close>. \<open>rnd\<close> is not used here; the group falls through to \<^verbatim>\<open>default: break\<close>.
\<close>

definition exec_F :: "chip8_t \<Rightarrow> undefined_behaviour + chip8_t" where
  "exec_F c =
     (let nn = NN (inst c); x = unat (X (inst c)) in
      if nn = 0x07 then Inr (c\<lparr>V := (V c)[x := delay_timer c]\<rparr>)
      else if nn = 0x0A then Inr (exec_FX0A c)
      else if nn = 0x15 then Inr (c\<lparr>delay_timer := V c ! x\<rparr>)
      else if nn = 0x18 then Inr (c\<lparr>sound_timer := V c ! x\<rparr>)
      else if nn = 0x1E then Inr (c\<lparr>I := I c + ucast (V c ! x)\<rparr>)
      else if nn = 0x29 then Inr (c\<lparr>I := ucast (V c ! x AND 0x0F) * 5\<rparr>)
      else if nn = 0x33 then exec_FX33 c
      else if nn = 0x55 then store_regs x 0 c
      else if nn = 0x65 then load_regs x 0 c
      else Inr c)"

section \<open>The interpreter step\<close>

text \<open>
  The \<^verbatim>\<open>switch\<close> of \<^verbatim>\<open>emulate_chip8\<close> on \<^verbatim>\<open>(opcode >> 12) & 0x0F\<close>, run on the state after
  the fetch. \<open>rnd\<close> is the value \<^verbatim>\<open>rand()\<close> returns (a non-negative \<^verbatim>\<open>int\<close>).
\<close>

definition op_class :: "16 word \<Rightarrow> 16 word" where
  "op_class w = drop_bit 12 w AND 0x0F"

definition execute :: "config_t \<Rightarrow> nat \<Rightarrow> chip8_t \<Rightarrow> undefined_behaviour + chip8_t" where
  "execute config rnd c =
     (let k = op_class (opcode (inst c));
          x = unat (X (inst c)); y = unat (Y (inst c))
      in
      if k = 0x0 then exec_0 c
      else if k = 0x1 then Inr (c\<lparr>PC := NNN (inst c)\<rparr>)
      else if k = 0x2 then
        (case stack_push c (PC c) of
           Inl u \<Rightarrow> Inl u
         | Inr c1 \<Rightarrow> Inr (c1\<lparr>PC := NNN (inst c1)\<rparr>))
      else if k = 0x3 then Inr (if V c ! x = NN (inst c) then c\<lparr>PC := PC c + 2\<rparr> else c)
      else if k = 0x4 then Inr (if V c ! x \<noteq> NN (inst c) then c\<lparr>PC := PC c + 2\<rparr> else c)
      else if k = 0x5 then Inr (if V c ! x = V c ! y then c\<lparr>PC := PC c + 2\<rparr> else c)
      else if k = 0x6 then Inr (c\<lparr>V := (V c)[x := NN (inst c)]\<rparr>)
      else if k = 0x7 then Inr (c\<lparr>V := (V c)[x := V c ! x + NN (inst c)]\<rparr>)
      else if k = 0x8 then Inr (exec_8 c)
      else if k = 0x9 then Inr (if V c ! x \<noteq> V c ! y then c\<lparr>PC := PC c + 2\<rparr> else c)
      else if k = 0xA then Inr (c\<lparr>I := NNN (inst c)\<rparr>)
      else if k = 0xB then Inr (c\<lparr>PC := ucast (V c ! 0) + NNN (inst c)\<rparr>)
      else if k = 0xC then Inr (c\<lparr>V := (V c)[x := of_nat (rnd mod 256) AND NN (inst c)]\<rparr>)
      else if k = 0xD then exec_D config c
      else if k = 0xE then Inr (exec_E c)
      else if k = 0xF then exec_F c
      else Inr c)"

text \<open>\<^verbatim>\<open>emulate_chip8\<close>: fetch, advance \<^verbatim>\<open>PC\<close> by 2, decode into \<^verbatim>\<open>chip8->inst\<close>, dispatch.\<close>

definition emulate_chip8 :: "config_t \<Rightarrow> nat \<Rightarrow> chip8_t \<Rightarrow> undefined_behaviour + chip8_t" where
  "emulate_chip8 config rnd c =
     (case fetch c of
        Inl u \<Rightarrow> Inl u
      | Inr w \<Rightarrow> execute config rnd (c\<lparr>inst := decode w, PC := PC c + 2\<rparr>))"

section \<open>Start-up: configuration and ROM loading\<close>

text \<open>\<^verbatim>\<open>set_config\<close>: the defaults; the command line overrides nothing.\<close>

definition set_config :: "config_t" where
  "set_config =
     \<lparr> window_width = 64, window_height = 32, fg_color = 0xFFFFFFFF, bg_color = 0x000000FF,
       scale_factor = 20, pixel_outlines = True, clock_speed = 500 \<rparr>"

text \<open>\<^verbatim>\<open>chip8_t chip8 = {0}\<close> in \<^verbatim>\<open>main\<close>.\<close>

definition chip8_zero :: "chip8_t" where
  "chip8_zero =
     \<lparr> state = QUIT, ram = replicate 4096 0, display = replicate 2048 False,
       stack = replicate 12 0, stack_ptr = 0, V = replicate 16 0, PC = 0, I = 0,
       delay_timer = 0, sound_timer = 0, keypad = replicate 16 False, rom_name = [],
       inst = \<lparr> opcode = 0, NNN = 0, NN = 0, N = 0, X = 0, Y = 0 \<rparr>, draw = False \<rparr>"

definition font :: "8 word list" where
  "font =
     [0xF0, 0x90, 0x90, 0x90, 0xF0,
      0x20, 0x60, 0x20, 0x20, 0x70,
      0xF0, 0x10, 0xF0, 0x80, 0xF0,
      0xF0, 0x10, 0xF0, 0x10, 0xF0,
      0x90, 0x90, 0xF0, 0x10, 0x10,
      0xF0, 0x80, 0xF0, 0x10, 0xF0,
      0xF0, 0x80, 0xF0, 0x90, 0xF0,
      0xF0, 0x10, 0x20, 0x40, 0x40,
      0xF0, 0x90, 0xF0, 0x90, 0xF0,
      0xF0, 0x90, 0xF0, 0x10, 0xF0,
      0xF0, 0x90, 0xF0, 0x90, 0x90,
      0xE0, 0x90, 0xE0, 0x90, 0xE0,
      0xF0, 0x80, 0x80, 0x80, 0xF0,
      0xE0, 0x90, 0x90, 0x90, 0xE0,
      0xF0, 0x80, 0xF0, 0x80, 0xF0,
      0xF0, 0x80, 0xF0, 0x80, 0x80]"

text \<open>
  Copying a block of bytes into \<^verbatim>\<open>ram\<close> at an offset (\<^verbatim>\<open>memcpy\<close>, and the transfer done by
  \<^verbatim>\<open>fread\<close>); the callers below keep the block inside the array.
\<close>

definition copy_into :: "8 word list \<Rightarrow> nat \<Rightarrow> 8 word list \<Rightarrow> 8 word list" where
  "copy_into mem a bs = take a mem @ bs @ drop (a + length bs) mem"

text \<open>
  The return value of \<^verbatim>\<open>fread(ptr, size, nmemb, stream)\<close> on a readable stream positioned at
  the start of \<open>bytes\<close>: the number of complete items read, and zero when \<open>sz\<close> or
  \<open>nmemb\<close> is zero.
\<close>

definition fread_items :: "nat \<Rightarrow> nat \<Rightarrow> 8 word list \<Rightarrow> nat" where
  "fread_items sz nmemb bytes =
     (if sz = 0 \<or> nmemb = 0 then 0 else min nmemb (length bytes div sz))"

text \<open>
  \<^verbatim>\<open>init_chip8\<close>. The file system is the argument \<open>file\<close>: \<open>None\<close> when \<^verbatim>\<open>fopen\<close> fails,
  otherwise the bytes of the ROM file. Each \<^verbatim>\<open>return false\<close> is one error value.
\<close>

datatype load_error = RomNotFound | ImageTooLarge | RomReadFailed

definition init_chip8 :: "chip8_t \<Rightarrow> string \<Rightarrow> 8 word list option \<Rightarrow> load_error + chip8_t" where
  "init_chip8 c name file =
     (let entry_point = 0x200;
          c1 = c\<lparr>ram := copy_into (ram c) 0 font\<rparr>
      in case file of
           None \<Rightarrow> Inl RomNotFound
         | Some bytes \<Rightarrow>
             (let rom_size = length bytes;
                  max_size = 4096 - entry_point
              in if rom_size > max_size then Inl ImageTooLarge
                 else if fread_items rom_size 1 bytes \<noteq> 1 then Inl RomReadFailed
                 else Inr (c1\<lparr>ram := copy_into (ram c1) entry_point (take rom_size bytes),
                              state := RUNNING, PC := 0x200, rom_name := name,
                              stack_ptr := 0\<rparr>)))"

section \<open>Concrete machine states used for evaluation\<close>

text \<open>
  \<open>at_entry bs\<close> is the zeroed machine with the bytes \<open>bs\<close> placed at the entry point
  \<^verbatim>\<open>0x200\<close> and \<^verbatim>\<open>PC\<close> pointing at them.
\<close>

definition at_entry :: "8 word list \<Rightarrow> chip8_t" where
  "at_entry bs = chip8_zero\<lparr>ram := copy_into (ram chip8_zero) 0x200 bs, PC := 0x200\<rparr>"

definition add_flag_clash :: chip8_t where
  "add_flag_clash = (at_entry [0x80, 0xF4])\<lparr>V := (V chip8_zero)[0 := 5, 0xF := 3]\<rparr>"

definition add_carry_state :: chip8_t where
  "add_carry_state = (at_entry [0x81, 0x24])\<lparr>V := (V chip8_zero)[1 := 200, 2 := 100]\<rparr>"

definition rnd_state :: chip8_t where
  "rnd_state = (at_entry [0xC3, 0x00])\<lparr>V := (V chip8_zero)[3 := 7]\<rparr>"

definition key_wait_state :: chip8_t where
  "key_wait_state =
     chip8_zero\<lparr>ram := copy_into (copy_into (ram chip8_zero) 0 font) 0x200 [0xF3, 0x0A],
                state := RUNNING, PC := 0x200, rom_name := ''wait.ch8'', stack_ptr := 0\<rparr>"

definition call_state :: "int \<Rightarrow> chip8_t" where
  "call_state sp = (at_entry [0x23, 0x45])\<lparr>stack_ptr := sp\<rparr>"

definition return_state :: "int \<Rightarrow> chip8_t" where
  "return_state sp =
     (at_entry [0x00, 0xEE])\<lparr>stack := (stack chip8_zero)[0 := 0x0ABC], stack_ptr := sp\<rparr>"

definition bcd_state :: chip8_t where
  "bcd_state = (at_entry [0xF2, 0x33])\<lparr>V := (V chip8_zero)[2 := 234], I := 0x300\<rparr>"

definition regs_state :: chip8_t where
  "regs_state =
     (at_entry [0xF2, 0x55, 0xF2, 0x65])\<lparr>V := (V chip8_zero)[0 := 11, 1 := 22, 2 := 33, 3 := 44],
                                           I := 0x300\<rparr>"

definition load_state :: chip8_t where
  "load_state =
     chip8_zero\<lparr>ram := copy_into (copy_into (ram chip8_zero) 0x200 [0xF2, 0x65]) 0x300 [7, 8, 9],
                V := (V chip8_zero)[0 := 11, 1 := 22, 2 := 33, 3 := 44],
                PC := 0x200, I := 0x300\<rparr>"

text \<open>
  The sprite bit that \<^verbatim>\<open>DXYN\<close> puts on display cell \<open>(x, y)\<close>: for a sprite of \<open>rows\<close> bytes
  at address \<open>a\<close> drawn with its origin at \<open>(x0, y0)\<close>, row \<open>y - y0\<close> is the byte
  \<open>mem ! (a + (y - y0))\<close> and column \<open>x - x0\<close> is its bit \<open>7 - (x - x0)\<close>.
\<close>

definition sprite_covers :: "8 word list \<Rightarrow> nat \<Rightarrow> nat \<Rightarrow> nat \<Rightarrow> nat \<Rightarrow> nat \<Rightarrow> nat \<Rightarrow> bool" where
  "sprite_covers mem a rows x0 y0 x y \<longleftrightarrow>
     y0 \<le> y \<and> y - y0 < rows \<and> x0 \<le> x \<and> x < x0 + 8 \<and>
     bit (mem ! (a + (y - y0))) (7 - (x - x0))"

text \<open>
  \<open>draw_state n v0 sprite disp\<close>: the zeroed machine with the program \<^verbatim>\<open>D00n D00n\<close> at
  \<^verbatim>\<open>0x200\<close>, the sprite bytes at \<^verbatim>\<open>I = 0x300\<close>, \<open>V[0] = v0\<close> and the display \<open>disp\<close>.
\<close>

definition draw_state :: "8 word \<Rightarrow> 8 word \<Rightarrow> 8 word list \<Rightarrow> bool list \<Rightarrow> chip8_t" where
  "draw_state n v0 sprite disp =
     chip8_zero\<lparr>ram := copy_into (copy_into (ram chip8_zero) 0x200 [0xD0, n, 0xD0, n]) 0x300 sprite,
                display := disp, V := (V chip8_zero)[0 := v0], PC := 0x200, I := 0x300\<rparr>"

definition clipped_sprite :: chip8_t where
  "clipped_sprite = draw_state 1 63 [0x01] (replicate 2048 False)"

definition lit_pixel :: chip8_t where
  "lit_pixel = draw_state 1 0 [0x80] ((replicate 2048 False)[0 := True])"

definition dark_pixel :: chip8_t where
  "dark_pixel = draw_state 1 0 [0x80] (replicate 2048 False)"

definition last_byte_sprite :: chip8_t where
  "last_byte_sprite = (draw_state 2 31 [] (replicate 2048 False))\<lparr>I := 0xFFF\<rparr>"

definition corner_sprite :: chip8_t where
  "corner_sprite = draw_state 2 63 [0xFF, 0xFF] (replicate 2048 False)"

section \<open>Basic facts\<close>

declare key_scan.simps [simp del] draw_bits.simps [simp del] draw_rows.simps [simp del]
  store_regs.simps [simp del] load_regs.simps [simp del]

lemma unat_and_le: "unat ((w::16 word) AND m) \<le> unat m"
  by (rule word_and_le1 [THEN word_le_nat_alt [THEN iffD1]])

lemma X_decode_lt: "unat (X (decode w)) < 16"
proof -
  have "unat (w AND 0x0F00) \<le> 3840" using unat_and_le[of w "0x0F00"] by simp
  then have "unat (w AND 0x0F00) div 256 < 16" by simp
  then show ?thesis
    by (simp add: decode_def unsigned_ucast_eq take_bit_eq_mod drop_bit_eq_div unat_div)
qed

lemma Y_decode_lt: "unat (Y (decode w)) < 16"
proof -
  have "unat (w AND 0x00F0) \<le> 240" using unat_and_le[of w "0x00F0"] by simp
  then have "unat (w AND 0x00F0) div 16 < 16" by simp
  then show ?thesis
    by (simp add: decode_def unsigned_ucast_eq take_bit_eq_mod drop_bit_eq_div unat_div)
qed

lemma N_decode_lt: "unat (N (decode w)) < 16"
proof -
  have "unat (w AND 0x000F) \<le> 15" using unat_and_le[of w "0x000F"] by simp
  then show ?thesis
    by (simp add: decode_def unsigned_ucast_eq take_bit_eq_mod)
qed

lemma opcode_decode [simp]: "opcode (decode w) = w"
  by (simp add: decode_def)

lemma unat_eq_15: "(unat (x::8 word) = 15) = (x = 0xF)"
  by (simp add: word_unat_eq_iff)

lemma emulate_fetch:
  "fetch c = Inr w \<Longrightarrow>
   emulate_chip8 config rnd c = execute config rnd (c\<lparr>inst := decode w, PC := PC c + 2\<rparr>)"
  by (simp add: emulate_chip8_def)

lemma wf_at_entry: "length bs \<le> 3584 \<Longrightarrow> wf_chip8 (at_entry bs)"
  by (simp add: at_entry_def chip8_zero_def wf_chip8_def copy_into_def)

lemma fetch_at_entry:
  "fetch ((at_entry (hi # lo # bs))\<lparr>V := vs\<rparr>) = Inr (push_bit 8 (ucast hi) OR ucast lo)"
  "fetch (at_entry (hi # lo # bs)) = Inr (push_bit 8 (ucast hi) OR ucast lo)"
  by (simp_all add: at_entry_def chip8_zero_def fetch_def ram_read_def copy_into_def nth_append)

section \<open>\<^verbatim>\<open>8XY4\<close>: add with carry\<close>

text \<open>
  C8, as stated, at \<open>X = 0\<close>, \<open>Y = F\<close>: with \<open>V[0] = 5\<close> and \<open>V[F] = 3\<close>, executing
  \<^verbatim>\<open>80F4\<close> writes the flag \<open>0\<close> into \<open>V[F]\<close> before the sum reads it, so \<open>V[0]\<close> ends as
  \<open>5\<close>, not \<open>(5 + 3) mod 256\<close>.
\<close>

theorem add_carry_flag_operand_counterexample:
  "V add_flag_clash ! 0 = 5 \<and> V add_flag_clash ! 0xF = 3 \<and>
   fetch add_flag_clash = Inr 0x80F4 \<and>
   emulate_chip8 set_config 0 add_flag_clash =
     Inr (add_flag_clash\<lparr>inst := decode 0x80F4, PC := 0x202,
                          V := (V add_flag_clash)[0xF := 0, 0 := 5]\<rparr>) \<and>
   (V add_flag_clash)[0xF := 0, 0 := 5] ! 0 \<noteq> 5 + 3"
  by (simp add: add_flag_clash_def at_entry_def chip8_zero_def copy_into_def nth_append
      fetch_def ram_read_def emulate_chip8_def execute_def op_class_def exec_8_def decode_def)

text \<open>
  C8 (amended): for \<open>X \<noteq> F\<close> and \<open>Y \<noteq> F\<close> and all bytes \<open>a\<close>, \<open>b\<close>: from a state with
  \<open>V[X] = a\<close> and \<open>V[Y] = b\<close>, executing \<^verbatim>\<open>8XY4\<close> leaves \<open>V[F] = 1\<close> exactly when
  \<open>a + b > 255\<close>, and \<open>V[X] = (a + b) mod 256\<close>; the flag is written first, then the
  sum, and nothing else changes but \<^verbatim>\<open>PC\<close> and the decoded instruction.
\<close>

theorem add_carry_law:
  assumes "wf_chip8 c" and "fetch c = Inr w" and "op_class w = 0x8" and "N (decode w) = 0x4"
    and "X (decode w) \<noteq> 0xF" and "Y (decode w) \<noteq> 0xF"
    and "V c ! unat (X (decode w)) = a" and "V c ! unat (Y (decode w)) = b"
  shows "emulate_chip8 config rnd c =
           Inr (c\<lparr>inst := decode w, PC := PC c + 2,
                  V := (V c)[0xF := (if unat a + unat b > 255 then 1 else 0),
                             unat (X (decode w)) := a + b]\<rparr>) \<and>
         ((V c)[0xF := (if unat a + unat b > 255 then 1 else 0),
                unat (X (decode w)) := a + b] ! 0xF = 1 \<longleftrightarrow> unat a + unat b > 255) \<and>
         unat ((V c)[0xF := (if unat a + unat b > 255 then 1 else 0),
                     unat (X (decode w)) := a + b] ! unat (X (decode w)))
           = (unat a + unat b) mod 256"
proof -
  have x: "unat (X (decode w)) < 16" and y: "unat (Y (decode w)) < 16"
    by (rule X_decode_lt, rule Y_decode_lt)
  have xf: "unat (X (decode w)) \<noteq> 15" and yf: "unat (Y (decode w)) \<noteq> 15"
    using assms(5,6) by (simp_all add: unat_eq_15)
  have len: "length (V c) = 16" using assms(1) by (simp add: wf_chip8_def)
  have carry: "(255 - unat a < unat b) = (255 < unat a + unat b)"
    using unsigned_less[of a, where 'a=nat] by auto
  show ?thesis
    using assms(2-4,7,8) x y xf yf len
    by (simp add: emulate_fetch execute_def exec_8_def Let_def carry unat_word_ariths)
qed

theorem add_carry_law_witness:
  "wf_chip8 add_carry_state \<and> fetch add_carry_state = Inr 0x8124 \<and>
   V add_carry_state ! 1 = 200 \<and> V add_carry_state ! 2 = 100 \<and>
   emulate_chip8 set_config 0 add_carry_state =
     Inr (add_carry_state\<lparr>inst := decode 0x8124, PC := 0x202,
                           V := (V add_carry_state)[0xF := 1, 1 := 44]\<rparr>)"
proof -
  have 1: "wf_chip8 add_carry_state"
    using wf_at_entry[of "[0x81, 0x24]"]
    by (simp add: add_carry_state_def wf_chip8_def chip8_zero_def)
  have 2: "fetch add_carry_state = Inr 0x8124"
    by (simp add: add_carry_state_def fetch_at_entry)
  have 3: "op_class 0x8124 = 0x8" "N (decode 0x8124) = 0x4" "X (decode 0x8124) = 1"
    "Y (decode 0x8124) = 2"
    by (simp_all add: op_class_def decode_def)
  have 4: "V add_carry_state ! 1 = 200" "V add_carry_state ! 2 = 100" "PC add_carry_state = 0x200"
    by (simp_all add: add_carry_state_def at_entry_def chip8_zero_def)
  have 5: "(300::8 word) = 44" by simp
  show ?thesis
    using add_carry_law[OF 1 2, of 200 100 set_config 0] 1 2 3 4 by (simp add: 5)
qed

section \<open>Skip instructions\<close>

text \<open>
  C9: from post-fetch states that agree except for the decoded instruction, \<^verbatim>\<open>3XNN\<close> and
  \<^verbatim>\<open>4XNN\<close> with the same \<open>X\<close> and \<open>NN\<close> behave as complements: exactly one of them adds 2
  to \<^verbatim>\<open>PC\<close> and the other returns the state as it was, and neither changes anything but
  \<^verbatim>\<open>PC\<close>. The same holds of \<^verbatim>\<open>5XY0\<close> and \<^verbatim>\<open>9XY0\<close> with the same \<open>X\<close> and \<open>Y\<close>.
\<close>

theorem skip_complement:
  assumes "op_class w3 = 0x3" and "op_class w4 = 0x4"
    and "X (decode w3) = X (decode w4)" and "NN (decode w3) = NN (decode w4)"
    and "op_class w5 = 0x5" and "op_class w9 = 0x9"
    and "X (decode w5) = X (decode w9)" and "Y (decode w5) = Y (decode w9)"
  shows "((execute config rnd (c\<lparr>inst := decode w3\<rparr>) = Inr (c\<lparr>inst := decode w3, PC := PC c + 2\<rparr>) \<and>
           execute config rnd (c\<lparr>inst := decode w4\<rparr>) = Inr (c\<lparr>inst := decode w4\<rparr>)) \<or>
          (execute config rnd (c\<lparr>inst := decode w3\<rparr>) = Inr (c\<lparr>inst := decode w3\<rparr>) \<and>
           execute config rnd (c\<lparr>inst := decode w4\<rparr>) = Inr (c\<lparr>inst := decode w4, PC := PC c + 2\<rparr>))) \<and>
         ((execute config rnd (c\<lparr>inst := decode w5\<rparr>) = Inr (c\<lparr>inst := decode w5, PC := PC c + 2\<rparr>) \<and>
           execute config rnd (c\<lparr>inst := decode w9\<rparr>) = Inr (c\<lparr>inst := decode w9\<rparr>)) \<or>
          (execute config rnd (c\<lparr>inst := decode w5\<rparr>) = Inr (c\<lparr>inst := decode w5\<rparr>) \<and>
           execute config rnd (c\<lparr>inst := decode w9\<rparr>) = Inr (c\<lparr>inst := decode w9, PC := PC c + 2\<rparr>))) \<and>
         PC c + 2 \<noteq> PC c"
  using assms by (simp add: execute_def)

theorem skip_complement_witness:
  "execute set_config 0 (chip8_zero\<lparr>inst := decode 0x3A00\<rparr>) =
     Inr (chip8_zero\<lparr>inst := decode 0x3A00, PC := 2\<rparr>) \<and>
   execute set_config 0 (chip8_zero\<lparr>inst := decode 0x4A00\<rparr>) =
     Inr (chip8_zero\<lparr>inst := decode 0x4A00\<rparr>) \<and>
   execute set_config 0 (chip8_zero\<lparr>inst := decode 0x5120\<rparr>) =
     Inr (chip8_zero\<lparr>inst := decode 0x5120, PC := 2\<rparr>) \<and>
   execute set_config 0 (chip8_zero\<lparr>inst := decode 0x9120\<rparr>) =
     Inr (chip8_zero\<lparr>inst := decode 0x9120\<rparr>)"
proof -
  have 1: "op_class 0x3A00 = 0x3" "op_class 0x4A00 = 0x4" "op_class 0x5120 = 0x5"
    "op_class 0x9120 = 0x9"
    by (simp_all add: op_class_def)
  have 2: "X (decode 0x3A00) = X (decode 0x4A00)" "NN (decode 0x3A00) = NN (decode 0x4A00)"
    "X (decode 0x5120) = X (decode 0x9120)" "Y (decode 0x5120) = Y (decode 0x9120)"
    by (simp_all add: decode_def)
  have 3: "execute set_config 0 (chip8_zero\<lparr>inst := decode 0x4A00\<rparr>) \<noteq>
             Inr (chip8_zero\<lparr>inst := decode 0x4A00, PC := PC chip8_zero + 2\<rparr>)"
    "execute set_config 0 (chip8_zero\<lparr>inst := decode 0x9120\<rparr>) \<noteq>
             Inr (chip8_zero\<lparr>inst := decode 0x9120, PC := PC chip8_zero + 2\<rparr>)"
    by (simp_all add: execute_def op_class_def decode_def chip8_zero_def)
  have 4: "PC chip8_zero = 0" by (simp add: chip8_zero_def)
  show ?thesis
    using skip_complement[OF 1(1) 1(2) 2(1) 2(2) 1(3) 1(4) 2(3) 2(4), of set_config 0 chip8_zero]
      3 4
    by auto
qed

section \<open>\<^verbatim>\<open>CXNN\<close>: random byte\<close>

text \<open>
  C10: executing \<^verbatim>\<open>CX00\<close> gives the same machine state whatever \<^verbatim>\<open>rand()\<close> returns, and in
  that state \<open>V[X] = 0\<close>; only \<open>V[X]\<close>, \<^verbatim>\<open>PC\<close> and the decoded instruction differ from the
  state before.
\<close>

theorem CX00_deterministic:
  assumes "wf_chip8 c" and "fetch c = Inr w" and "op_class w = 0xC" and "NN (decode w) = 0"
  shows "emulate_chip8 config r1 c = emulate_chip8 config r2 c \<and>
         emulate_chip8 config r1 c =
           Inr (c\<lparr>inst := decode w, PC := PC c + 2, V := (V c)[unat (X (decode w)) := 0]\<rparr>) \<and>
         (V c)[unat (X (decode w)) := 0] ! unat (X (decode w)) = 0"
  using assms X_decode_lt[of w]
  by (simp add: emulate_fetch execute_def wf_chip8_def)

theorem CX00_deterministic_witness:
  "wf_chip8 rnd_state \<and> fetch rnd_state = Inr 0xC300 \<and> V rnd_state ! 3 = 7 \<and>
   emulate_chip8 set_config 17 rnd_state = emulate_chip8 set_config 99 rnd_state \<and>
   emulate_chip8 set_config 17 rnd_state =
     Inr (rnd_state\<lparr>inst := decode 0xC300, PC := 0x202, V := (V rnd_state)[3 := 0]\<rparr>)"
proof -
  have 1: "wf_chip8 rnd_state"
    using wf_at_entry[of "[0xC3, 0x00]"]
    by (simp add: rnd_state_def wf_chip8_def chip8_zero_def)
  have 2: "fetch rnd_state = Inr 0xC300"
    by (simp add: rnd_state_def fetch_at_entry)
  have 3: "op_class 0xC300 = 0xC" "NN (decode 0xC300) = 0" "X (decode 0xC300) = 3"
    by (simp_all add: op_class_def decode_def)
  have 4: "V rnd_state ! 3 = 7" "PC rnd_state = 0x200"
    by (simp_all add: rnd_state_def at_entry_def chip8_zero_def)
  show ?thesis
    using CX00_deterministic[OF 1 2 3(1) 3(2), of set_config 17 99] 1 2 3 4 by auto
qed

section \<open>\<^verbatim>\<open>FX0A\<close>: wait for a key\<close>

lemma key_scan_none:
  "\<forall>k. i \<le> k \<and> k < 16 \<longrightarrow> \<not> keypad c ! k \<Longrightarrow> key_scan i c kp = (c, kp)"
proof (induction i c kp rule: key_scan.induct)
  case (1 i c kp)
  show ?case
  proof (cases "i < 16")
    case True
    then have nk: "\<not> keypad c ! i" using 1(2) by simp
    have "key_scan (i + 1) c kp = (c, kp)"
      using 1(1)[OF True nk] 1(2) by simp
    then show ?thesis using True nk by (subst key_scan.simps) simp
  next
    case False
    then show ?thesis by (subst key_scan.simps) simp
  qed
qed

lemma exec_FX0A_no_key: "\<forall>k<16. \<not> keypad c ! k \<Longrightarrow> exec_FX0A c = c"
  by (simp add: exec_FX0A_def key_scan_none)

text \<open>
  What \<^verbatim>\<open>FX0A\<close> does in general: with a key down, the lowest-indexed down key goes to
  \<open>V[X]\<close> and \<^verbatim>\<open>PC\<close> stays advanced; with no key down, nothing but the fetch happens.
\<close>

lemma key_scan_first:
  "k < 16 \<Longrightarrow> i \<le> k \<Longrightarrow> keypad c ! k \<Longrightarrow> \<forall>m. i \<le> m \<and> m < k \<longrightarrow> \<not> keypad c ! m \<Longrightarrow>
   key_scan i c kp = (c\<lparr>V := (V c)[unat (X (inst c)) := of_nat k]\<rparr>, True)"
proof (induction i c kp rule: key_scan.induct)
  case (1 i c kp)
  have i16: "i < 16" using 1(2,3) by simp
  show ?case
  proof (cases "keypad c ! i")
    case True
    then have "i = k" using 1(3,5) by (metis le_neq_implies_less order_refl)
    then show ?thesis using True i16 by (subst key_scan.simps) simp
  next
    case False
    then have "i + 1 \<le> k" using 1(3,4) by (metis Suc_eq_plus1 Suc_leI le_neq_implies_less)
    then have "key_scan (i + 1) c kp = (c\<lparr>V := (V c)[unat (X (inst c)) := of_nat k]\<rparr>, True)"
      using 1(1)[OF i16 False 1(2) _ 1(4)] 1(5) by simp
    then show ?thesis using False i16 by (subst key_scan.simps) simp
  qed
qed

lemma FX0A_key_down:
  assumes "fetch c = Inr w" and "op_class w = 0xF" and "NN (decode w) = 0x0A"
    and "k < 16" and "keypad c ! k" and "\<forall>m<k. \<not> keypad c ! m"
  shows "emulate_chip8 config rnd c =
           Inr (c\<lparr>inst := decode w, PC := PC c + 2,
                  V := (V c)[unat (X (decode w)) := of_nat k]\<rparr>)"
proof -
  let ?c0 = "c\<lparr>inst := decode w, PC := PC c + 2\<rparr>"
  have "key_scan 0 ?c0 True = (?c0\<lparr>V := (V ?c0)[unat (X (inst ?c0)) := of_nat k]\<rparr>, True)"
    by (rule key_scan_first) (use assms(4-6) in simp_all)
  then show ?thesis
    using assms(1-3) by (simp add: emulate_fetch execute_def exec_F_def exec_FX0A_def)
qed

lemma FX0A_no_key:
  assumes "fetch c = Inr w" and "op_class w = 0xF" and "NN (decode w) = 0x0A"
    and "\<forall>k<16. \<not> keypad c ! k"
  shows "emulate_chip8 config rnd c = Inr (c\<lparr>inst := decode w, PC := PC c + 2\<rparr>)"
proof -
  let ?c0 = "c\<lparr>inst := decode w, PC := PC c + 2\<rparr>"
  have "exec_FX0A ?c0 = ?c0"
    by (rule exec_FX0A_no_key) (use assms(4) in simp)
  then show ?thesis
    using assms(1-3) by (simp add: emulate_fetch execute_def exec_F_def)
qed

lemma length_font: "length font = 80"
  by (simp add: font_def)

text \<open>
  C1, the code at a state with no key down: the machine loaded from the two-byte ROM
  \<^verbatim>\<open>F3 0A\<close> has \<^verbatim>\<open>PC = 0x200\<close> and an all-false keypad; one step of \<^verbatim>\<open>emulate_chip8\<close>
  leaves \<^verbatim>\<open>PC = 0x202\<close>. The local \<^verbatim>\<open>key_pressed\<close> starts as \<^verbatim>\<open>true\<close>, so the
  \<^verbatim>\<open>PC -= 2\<close> branch is never taken and the instruction does not wait.
\<close>

theorem FX0A_no_key_keeps_PC_advanced:
  "init_chip8 chip8_zero ''wait.ch8'' (Some [0xF3, 0x0A]) = Inr key_wait_state \<and>
   keypad key_wait_state = replicate 16 False \<and>
   PC key_wait_state = 0x200 \<and>
   fetch key_wait_state = Inr 0xF30A \<and>
   emulate_chip8 set_config 0 key_wait_state =
     Inr (key_wait_state\<lparr>inst := decode 0xF30A, PC := 0x202\<rparr>)"
proof -
  have 1: "init_chip8 chip8_zero ''wait.ch8'' (Some [0xF3, 0x0A]) = Inr key_wait_state"
    by (simp add: init_chip8_def key_wait_state_def fread_items_def Let_def)
  have 2: "keypad key_wait_state = replicate 16 False" "PC key_wait_state = 0x200"
    by (simp_all add: key_wait_state_def chip8_zero_def)
  have 3: "fetch key_wait_state = Inr 0xF30A"
    by (simp add: key_wait_state_def chip8_zero_def fetch_def ram_read_def copy_into_def
        length_font nth_append)
  have 4: "exec_FX0A (key_wait_state\<lparr>inst := decode 0xF30A, PC := 0x202\<rparr>) =
             key_wait_state\<lparr>inst := decode 0xF30A, PC := 0x202\<rparr>"
    by (rule exec_FX0A_no_key) (simp add: 2)
  have 5: "op_class 0xF30A = 0xF" "NN (decode 0xF30A) = 0x0A"
    by (simp_all add: op_class_def decode_def)
  have "emulate_chip8 set_config 0 key_wait_state =
     Inr (key_wait_state\<lparr>inst := decode 0xF30A, PC := 0x202\<rparr>)"
    using 3 4 5 2 by (simp add: emulate_fetch execute_def exec_F_def)
  then show ?thesis using 1 2 3 by simp
qed

section \<open>\<^verbatim>\<open>2NNN\<close> and \<^verbatim>\<open>00EE\<close>: call and return\<close>

lemma fetch_call_state: "fetch (call_state sp) = Inr 0x2345"
  by (simp add: call_state_def at_entry_def chip8_zero_def fetch_def ram_read_def
      copy_into_def nth_append)

lemma fetch_return_state: "fetch (return_state sp) = Inr 0x00EE"
  by (simp add: return_state_def at_entry_def chip8_zero_def fetch_def ram_read_def
      copy_into_def nth_append)

text \<open>
  C2, as stated, at a full stack: with \<^verbatim>\<open>stack_ptr\<close> at offset 12, executing \<^verbatim>\<open>2345\<close> does
  not end in a stack-overflow result that leaves the memory past the array alone; the
  code has no check, and the step is the store through \<^verbatim>\<open>stack_ptr\<close> at index 12, one
  past the last element of \<^verbatim>\<open>stack[12]\<close>.
\<close>

theorem call_on_full_stack_counterexample:
  "wf_chip8 (call_state 12) \<and> stack_ptr (call_state 12) = 12 \<and>
   fetch (call_state 12) = Inr 0x2345 \<and>
   emulate_chip8 set_config 0 (call_state 12) = stack_write (call_state 12) 12 0x202 \<and>
   stack_write (call_state 12) 12 0x202 = Inl (StackOutOfBounds 12)"
  by (simp add: fetch_call_state emulate_fetch execute_def op_class_def stack_push_def
      stack_write_def)
     (simp add: call_state_def at_entry_def chip8_zero_def wf_chip8_def copy_into_def)

text \<open>
  C2 (amended): with fewer than 12 entries on the stack \<^verbatim>\<open>2NNN\<close> stores the current
  (post-fetch) \<^verbatim>\<open>PC\<close> at the stack pointer, advances the pointer and sets \<^verbatim>\<open>PC\<close> to
  \<open>NNN\<close>; with at least one entry \<^verbatim>\<open>00EE\<close> steps the pointer back and loads \<^verbatim>\<open>PC\<close> from
  the entry it then points at. The code has no overflow or underflow result: with 12
  entries \<^verbatim>\<open>2NNN\<close> is the store at index 12, past the array, and with none \<^verbatim>\<open>00EE\<close> is the
  read at index \<open>-1\<close>, before it, both outside what C defines.
\<close>

theorem call_return:
  assumes "fetch c = Inr w"
  shows "(op_class w = 0x2 \<and> 0 \<le> stack_ptr c \<and> stack_ptr c < 12 \<longrightarrow>
            emulate_chip8 config rnd c =
              Inr (c\<lparr>inst := decode w, PC := NNN (decode w),
                     stack := (stack c)[nat (stack_ptr c) := PC c + 2],
                     stack_ptr := stack_ptr c + 1\<rparr>)) \<and>
         (op_class w = 0x0 \<and> NN (decode w) = 0xEE \<and> 0 < stack_ptr c \<and> stack_ptr c \<le> 12 \<longrightarrow>
            emulate_chip8 config rnd c =
              Inr (c\<lparr>inst := decode w, PC := stack c ! nat (stack_ptr c - 1),
                     stack_ptr := stack_ptr c - 1\<rparr>)) \<and>
         (op_class w = 0x2 \<and> stack_ptr c = 12 \<longrightarrow>
            emulate_chip8 config rnd c = Inl (StackOutOfBounds 12)) \<and>
         (op_class w = 0x0 \<and> NN (decode w) = 0xEE \<and> stack_ptr c = 0 \<longrightarrow>
            emulate_chip8 config rnd c = Inl (StackOutOfBounds (- 1)))"
  using assms
  by (auto simp add: emulate_fetch execute_def exec_0_def stack_push_def stack_pop_def
      stack_read_def stack_write_def)

theorem call_return_witness:
  "emulate_chip8 set_config 0 (call_state 0) =
     Inr ((call_state 0)\<lparr>inst := decode 0x2345, PC := 0x345,
            stack := (stack (call_state 0))[0 := 0x202], stack_ptr := 1\<rparr>) \<and>
   emulate_chip8 set_config 0 (return_state 1) =
     Inr ((return_state 1)\<lparr>inst := decode 0x00EE, PC := 0x0ABC, stack_ptr := 0\<rparr>) \<and>
   emulate_chip8 set_config 0 (call_state 12) = Inl (StackOutOfBounds 12) \<and>
   emulate_chip8 set_config 0 (return_state 0) = Inl (StackOutOfBounds (- 1))"
proof -
  have 1: "op_class 0x2345 = 0x2" "op_class 0x00EE = 0x0" "NN (decode 0x00EE) = 0xEE"
    "NNN (decode 0x2345) = 0x345"
    by (simp_all add: op_class_def decode_def)
  have 2: "stack_ptr (call_state sp) = sp" "PC (call_state sp) = 0x200"
    "stack_ptr (return_state sp) = sp" "stack (return_state sp) ! 0 = 0x0ABC" for sp
    by (simp_all add: call_state_def return_state_def at_entry_def chip8_zero_def)
  show ?thesis
    using call_return[OF fetch_call_state, of 0 set_config 0]
      call_return[OF fetch_return_state, of 1 set_config 0]
      call_return[OF fetch_call_state, of 12 set_config 0]
      call_return[OF fetch_return_state, of 0 set_config 0]
    by (simp add: 1 2)
qed

section \<open>\<^verbatim>\<open>FX33\<close>: binary-coded decimal\<close>

lemma decimal_sum: "(n::nat) div 100 * 100 + n div 10 mod 10 * 10 + n mod 10 = n"
proof -
  define m where "m = n div 10"
  have a: "n div 100 = m div 10"
    unfolding m_def using div_mult2_eq[of n 10 10] by simp
  have b: "m = m div 10 * 10 + m mod 10" by simp
  have c: "n = m * 10 + n mod 10" unfolding m_def by simp
  have "m div 10 * 100 + m mod 10 * 10 + n mod 10 = n"
    using b c by arith
  then show ?thesis using a by (simp add: m_def)
qed

lemma bcd_exec:
  assumes "fetch c = Inr w" and "op_class w = 0xF" and "NN (decode w) = 0x33"
    and "unat (I c) + 2 < 4096"
  shows "emulate_chip8 config rnd c =
           Inr (c\<lparr>inst := decode w, PC := PC c + 2,
                  ram := (ram c)[unat (I c) + 2 := V c ! unat (X (decode w)) mod 10,
                                 unat (I c) + 1 := (V c ! unat (X (decode w)) div 10) mod 10,
                                 unat (I c) := V c ! unat (X (decode w)) div 10 div 10]\<rparr>)"
  using assms
  by (simp add: emulate_fetch execute_def exec_F_def exec_FX33_def ram_write_def Let_def)

text \<open>
  C6: for every value \<open>v\<close> of \<open>V[X]\<close> and every \<open>I\<close> with \<open>I + 2 < 4096\<close>, executing
  \<^verbatim>\<open>FX33\<close> succeeds and leaves in \<open>ram[I]\<close>, \<open>ram[I+1]\<close>, \<open>ram[I+2]\<close> the hundreds, tens and
  units digits of \<open>v\<close>, each at most 9, so that
  \<open>ram[I] * 100 + ram[I+1] * 10 + ram[I+2] = v\<close>; every other byte of memory keeps its
  value, and of the rest of the machine only \<^verbatim>\<open>PC\<close> (advanced by the fetch) and the decoded
  instruction differ: no register changes.
\<close>

theorem bcd_digits:
  assumes "wf_chip8 c" and "fetch c = Inr w" and "op_class w = 0xF" and "NN (decode w) = 0x33"
    and "unat (I c) + 2 < 4096" and "V c ! unat (X (decode w)) = v"
  shows "\<exists>c'. emulate_chip8 config rnd c = Inr c' \<and>
           unat (ram c' ! unat (I c)) = unat v div 100 \<and>
           unat (ram c' ! (unat (I c) + 1)) = unat v div 10 mod 10 \<and>
           unat (ram c' ! (unat (I c) + 2)) = unat v mod 10 \<and>
           unat (ram c' ! unat (I c)) \<le> 9 \<and>
           unat (ram c' ! (unat (I c) + 1)) \<le> 9 \<and>
           unat (ram c' ! (unat (I c) + 2)) \<le> 9 \<and>
           unat (ram c' ! unat (I c)) * 100 + unat (ram c' ! (unat (I c) + 1)) * 10
             + unat (ram c' ! (unat (I c) + 2)) = unat v \<and>
           (\<forall>a. a \<noteq> unat (I c) \<and> a \<noteq> unat (I c) + 1 \<and> a \<noteq> unat (I c) + 2 \<longrightarrow>
                ram c' ! a = ram c ! a) \<and>
           length (ram c') = 4096 \<and>
           c' = c\<lparr>inst := decode w, PC := PC c + 2, ram := ram c'\<rparr>"
proof -
  define r where "r = (ram c)[unat (I c) + 2 := v mod 10,
                                 unat (I c) + 1 := (v div 10) mod 10,
                                 unat (I c) := v div 10 div 10]"
  have len: "length (ram c) = 4096" using assms(1) by (simp add: wf_chip8_def)
  have v: "unat v < 256" using unsigned_less[of v, where 'a=nat] by simp
  have e: "emulate_chip8 config rnd c = Inr (c\<lparr>inst := decode w, PC := PC c + 2, ram := r\<rparr>)"
    using bcd_exec[OF assms(2-5)] assms(6) by (simp add: r_def)
  have r0: "unat (r ! unat (I c)) = unat v div 100"
    using len assms(5) by (simp add: r_def unat_div div_mult2_eq)
  have r1: "unat (r ! (unat (I c) + 1)) = unat v div 10 mod 10"
    using len assms(5) by (simp add: r_def unat_div unat_mod)
  have r2: "unat (r ! (unat (I c) + 2)) = unat v mod 10"
    using len assms(5) by (simp add: r_def unat_mod)
  have other: "\<forall>a. a \<noteq> unat (I c) \<and> a \<noteq> unat (I c) + 1 \<and> a \<noteq> unat (I c) + 2 \<longrightarrow>
                r ! a = ram c ! a"
    by (simp add: r_def)
  have rl: "length r = 4096" using len by (simp add: r_def)
  have h: "unat v div 100 \<le> 9" using v by simp
  have sum: "unat v div 100 * 100 + unat v div 10 mod 10 * 10 + unat v mod 10 = unat v"
    by (rule decimal_sum)
  have d: "unat v div 10 mod 10 \<le> 9" "unat v mod 10 \<le> 9"
    using mod_less_divisor[of 10 "unat v div 10"] mod_less_divisor[of 10 "unat v"]
    by linarith+
  show ?thesis
    using e r0 r1 r2 other rl h sum d by simp
qed

theorem bcd_digits_witness:
  "wf_chip8 bcd_state \<and> V bcd_state ! 2 = 234 \<and> I bcd_state = 0x300 \<and>
   (\<exists>c'. emulate_chip8 set_config 0 bcd_state = Inr c' \<and>
      ram c' ! 0x300 = 2 \<and> ram c' ! 0x301 = 3 \<and> ram c' ! 0x302 = 4)"
proof -
  have 1: "wf_chip8 bcd_state"
    using wf_at_entry[of "[0xF2, 0x33]"]
    by (simp add: bcd_state_def wf_chip8_def chip8_zero_def)
  have 2: "fetch bcd_state = Inr 0xF233"
    by (simp add: bcd_state_def at_entry_def chip8_zero_def fetch_def ram_read_def
      copy_into_def nth_append)
  have 3: "op_class 0xF233 = 0xF" "NN (decode 0xF233) = 0x33" "X (decode 0xF233) = 2"
    by (simp_all add: op_class_def decode_def)
  have 4: "V bcd_state ! 2 = 234" "I bcd_state = 0x300"
    by (simp_all add: bcd_state_def at_entry_def chip8_zero_def)
  have 5: "unat (I bcd_state) + 2 < 4096" by (simp add: 4)
  have 6: "V bcd_state ! unat (X (decode 0xF233)) = 234" by (simp add: 3 4)
  obtain c' where "emulate_chip8 set_config 0 bcd_state = Inr c'"
    and "unat (ram c' ! 0x300) = 2" and "unat (ram c' ! 0x301) = 3" and "unat (ram c' ! 0x302) = 4"
    using bcd_digits[OF 1 2 3(1) 3(2) 5 6, of set_config 0] by (auto simp add: 4)
  then show ?thesis using 1 4 by (auto simp add: word_unat_eq_iff)
qed

section \<open>Loading a ROM\<close>

lemma fread_whole: "bs \<noteq> [] \<Longrightarrow> fread_items (length bs) (Suc 0) bs = Suc 0"
  by (simp add: fread_items_def)

text \<open>
  C3, as stated, at \<open>L = 0\<close>: loading the empty image does not succeed. \<^verbatim>\<open>fread\<close> is asked
  for one item of size 0 and returns 0, which \<^verbatim>\<open>init_chip8\<close> takes for a failed read.
\<close>

theorem empty_rom_counterexample:
  "length ([] :: 8 word list) \<le> 4096 - 512 \<and>
   init_chip8 chip8_zero ''empty.ch8'' (Some []) = Inl RomReadFailed"
  by (simp add: init_chip8_def fread_items_def)

text \<open>
  C3 (amended): for every program image of length \<open>L\<close>, loading fails with
  \<open>ImageTooLarge\<close> exactly when \<open>L > 4096 - 512\<close>; for every \<open>1 \<le> L \<le> 3584\<close> loading
  succeeds, the \<open>L\<close> bytes are in memory from address 512 on, the font is at addresses
  \<^verbatim>\<open>0x000\<close> to \<^verbatim>\<open>0x04F\<close>, every other byte of memory is as before, and \<^verbatim>\<open>PC\<close> is
  \<^verbatim>\<open>0x200\<close>.
\<close>

theorem load_rom:
  assumes "length (ram c) = 4096"
  shows "(init_chip8 c name (Some bytes) = Inl ImageTooLarge \<longleftrightarrow> length bytes > 4096 - 512) \<and>
         (1 \<le> length bytes \<and> length bytes \<le> 3584 \<longrightarrow>
            (\<exists>c'. init_chip8 c name (Some bytes) = Inr c' \<and>
                  length (ram c') = 4096 \<and>
                  (\<forall>i < length bytes. ram c' ! (512 + i) = bytes ! i) \<and>
                  (\<forall>i < 80. ram c' ! i = font ! i) \<and>
                  (\<forall>a < 4096. 80 \<le> a \<and> (a < 512 \<or> 512 + length bytes \<le> a) \<longrightarrow>
                       ram c' ! a = ram c ! a) \<and>
                  PC c' = 0x200 \<and> stack_ptr c' = 0 \<and> state c' = RUNNING))"
proof -
  have a: "init_chip8 c name (Some bytes) = Inl ImageTooLarge \<longleftrightarrow> length bytes > 4096 - 512"
    by (simp add: init_chip8_def Let_def)
  have b: "\<exists>c'. init_chip8 c name (Some bytes) = Inr c' \<and>
                  length (ram c') = 4096 \<and>
                  (\<forall>i < length bytes. ram c' ! (512 + i) = bytes ! i) \<and>
                  (\<forall>i < 80. ram c' ! i = font ! i) \<and>
                  (\<forall>a < 4096. 80 \<le> a \<and> (a < 512 \<or> 512 + length bytes \<le> a) \<longrightarrow>
                       ram c' ! a = ram c ! a) \<and>
                  PC c' = 0x200 \<and> stack_ptr c' = 0 \<and> state c' = RUNNING"
    if h: "1 \<le> length bytes" "length bytes \<le> 3584"
  proof -
    define r where "r = copy_into (copy_into (ram c) 0 font) 512 bytes"
    have e: "init_chip8 c name (Some bytes) =
            Inr (c\<lparr>ram := r, state := RUNNING, PC := 0x200, rom_name := name, stack_ptr := 0\<rparr>)"
    proof -
      have "bytes \<noteq> []" using h by auto
      then show ?thesis
        using h by (simp add: init_chip8_def Let_def fread_whole r_def)
    qed
    have l: "length r = 4096"
      using h assms by (simp add: r_def copy_into_def length_font)
    have 1: "\<forall>i < length bytes. r ! (512 + i) = bytes ! i"
      using h assms by (simp add: r_def copy_into_def length_font nth_append)
    have 2: "\<forall>i < 80. r ! i = font ! i"
      using h assms by (simp add: r_def copy_into_def length_font nth_append)
    have 3: "\<forall>a < 4096. 80 \<le> a \<and> (a < 512 \<or> 512 + length bytes \<le> a) \<longrightarrow> r ! a = ram c ! a"
      using h assms by (auto simp add: r_def copy_into_def length_font nth_append)
    show ?thesis using e l 1 2 3 by simp
  qed
  show ?thesis using a b by blast
qed


theorem load_rom_witness:
  "length (ram chip8_zero) = 4096 \<and>
   (\<exists>c'. init_chip8 chip8_zero ''test.ch8'' (Some [0x00, 0xE0, 0xA2, 0x2A]) = Inr c' \<and>
      ram c' ! 512 = 0x00 \<and> ram c' ! 513 = 0xE0 \<and> ram c' ! 514 = 0xA2 \<and> ram c' ! 515 = 0x2A \<and>
      ram c' ! 0 = 0xF0 \<and> ram c' ! 79 = 0x80 \<and> PC c' = 0x200) \<and>
   init_chip8 chip8_zero ''big.ch8'' (Some (replicate 3585 0)) = Inl ImageTooLarge"
proof -
  have 1: "length (ram chip8_zero) = 4096" by (simp add: chip8_zero_def)
  let ?rom = "[0x00, 0xE0, 0xA2, 0x2A] :: 8 word list"
  have 2: "1 \<le> length ?rom \<and> length ?rom \<le> 3584" by simp
  obtain c' where c: "init_chip8 chip8_zero ''test.ch8'' (Some ?rom) = Inr c'"
    "\<forall>i < length ?rom. ram c' ! (512 + i) = ?rom ! i"
    "\<forall>i < 80. ram c' ! i = font ! i" "PC c' = 0x200"
    using load_rom[OF 1, where bytes="?rom" and name="''test.ch8''"] 2 by blast
  have 3: "ram c' ! 512 = 0x00" "ram c' ! 513 = 0xE0" "ram c' ! 514 = 0xA2" "ram c' ! 515 = 0x2A"
    using c(2)[rule_format, of 0] c(2)[rule_format, of 1] c(2)[rule_format, of 2]
      c(2)[rule_format, of 3]
    by simp_all
  have 4: "ram c' ! 0 = 0xF0" "ram c' ! 79 = 0x80"
    using c(3)[rule_format, of 0] c(3)[rule_format, of 79] by (simp_all add: font_def)
  have 5: "init_chip8 chip8_zero ''big.ch8'' (Some (replicate 3585 0)) = Inl ImageTooLarge"
    using load_rom[OF 1, where bytes="replicate 3585 0" and name="''big.ch8''"] by simp
  show ?thesis using 1 c(1,4) 3 4 5 by simp
qed

section \<open>\<^verbatim>\<open>FX55\<close> and \<^verbatim>\<open>FX65\<close>: register transfer\<close>

lemma store_regs_spec:
  "unat (I c) + x < 4096 \<Longrightarrow> length (ram c) = 4096 \<Longrightarrow>
   \<exists>r. store_regs x i c = Inr (c\<lparr>ram := r\<rparr>) \<and> length r = 4096 \<and>
       (\<forall>k. i \<le> k \<and> k \<le> x \<longrightarrow> r ! (unat (I c) + k) = V c ! k) \<and>
       (\<forall>a. \<not> (unat (I c) + i \<le> a \<and> a \<le> unat (I c) + x) \<longrightarrow> r ! a = ram c ! a)"
proof (induction x i c rule: store_regs.induct)
  case (1 x i c)
  show ?case
  proof (cases "i \<le> x")
    case False
    then show ?thesis
      using 1(3) by (subst store_regs.simps) (auto intro!: exI[of _ "ram c"])
  next
    case True
    define c1 where "c1 = c\<lparr>ram := (ram c)[unat (I c) + i := V c ! i]\<rparr>"
    have w: "ram_write c (unat (I c) + i) (V c ! i) = Inr c1"
      using True 1(2) by (simp add: ram_write_def c1_def)
    have f: "I c1 = I c" "V c1 = V c" "length (ram c1) = 4096"
      using 1(3) by (simp_all add: c1_def)
    obtain r where r: "store_regs x (i + 1) c1 = Inr (c1\<lparr>ram := r\<rparr>)" "length r = 4096"
      "\<forall>k. i + 1 \<le> k \<and> k \<le> x \<longrightarrow> r ! (unat (I c) + k) = V c ! k"
      "\<forall>a. \<not> (unat (I c) + (i + 1) \<le> a \<and> a \<le> unat (I c) + x) \<longrightarrow> r ! a = ram c1 ! a"
      using 1(1)[OF True w] 1(2) f by auto
    have s: "store_regs x i c = Inr (c\<lparr>ram := r\<rparr>)"
      using True w r(1) by (subst store_regs.simps) (simp add: c1_def)
    have here: "r ! (unat (I c) + i) = V c ! i"
      using r(4) 1(2,3) True by (simp add: c1_def)
    have k: "\<forall>k. i \<le> k \<and> k \<le> x \<longrightarrow> r ! (unat (I c) + k) = V c ! k"
    proof (intro allI impI)
      fix k assume "i \<le> k \<and> k \<le> x"
      then consider "k = i" | "i + 1 \<le> k \<and> k \<le> x" by linarith
      then show "r ! (unat (I c) + k) = V c ! k"
        using here r(3) by cases auto
    qed
    have o: "\<forall>a. \<not> (unat (I c) + i \<le> a \<and> a \<le> unat (I c) + x) \<longrightarrow> r ! a = ram c ! a"
    proof (intro allI impI)
      fix a assume a: "\<not> (unat (I c) + i \<le> a \<and> a \<le> unat (I c) + x)"
      then have "\<not> (unat (I c) + (i + 1) \<le> a \<and> a \<le> unat (I c) + x)" and "a \<noteq> unat (I c) + i"
        using True by auto
      then show "r ! a = ram c ! a" using r(4) by (simp add: c1_def)
    qed
    show ?thesis using s r(2) k o by blast
  qed
qed

lemma load_regs_spec:
  "unat (I c) + x < 4096 \<Longrightarrow> x < 16 \<Longrightarrow> length (V c) = 16 \<Longrightarrow>
   \<exists>v. load_regs x i c = Inr (c\<lparr>V := v\<rparr>) \<and> length v = 16 \<and>
       (\<forall>k. i \<le> k \<and> k \<le> x \<longrightarrow> v ! k = ram c ! (unat (I c) + k)) \<and>
       (\<forall>k. \<not> (i \<le> k \<and> k \<le> x) \<longrightarrow> v ! k = V c ! k)"
proof (induction x i c rule: load_regs.induct)
  case (1 x i c)
  show ?case
  proof (cases "i \<le> x")
    case False
    then show ?thesis
      using 1(4) by (subst load_regs.simps) (auto intro!: exI[of _ "V c"])
  next
    case True
    define c1 where "c1 = c\<lparr>V := (V c)[i := ram c ! (unat (I c) + i)]\<rparr>"
    have rd: "ram_read c (unat (I c) + i) = Inr (ram c ! (unat (I c) + i))"
      using True 1(2) by (simp add: ram_read_def)
    have f: "I c1 = I c" "ram c1 = ram c" "length (V c1) = 16"
      using 1(4) by (simp_all add: c1_def)
    have ih: "\<exists>v. load_regs x (i + 1) c1 = Inr (c1\<lparr>V := v\<rparr>) \<and> length v = 16 \<and>
       (\<forall>k. i + 1 \<le> k \<and> k \<le> x \<longrightarrow> v ! k = ram c1 ! (unat (I c1) + k)) \<and>
       (\<forall>k. \<not> (i + 1 \<le> k \<and> k \<le> x) \<longrightarrow> v ! k = V c1 ! k)"
      using 1(1)[OF True rd] 1(2,3) f by (simp add: c1_def)
    then obtain v where v: "load_regs x (i + 1) c1 = Inr (c1\<lparr>V := v\<rparr>)" "length v = 16"
      "\<forall>k. i + 1 \<le> k \<and> k \<le> x \<longrightarrow> v ! k = ram c ! (unat (I c) + k)"
      "\<forall>k. \<not> (i + 1 \<le> k \<and> k \<le> x) \<longrightarrow> v ! k = V c1 ! k"
      using f by auto
    have s: "load_regs x i c = Inr (c\<lparr>V := v\<rparr>)"
      using True rd v(1) by (subst load_regs.simps) (simp add: c1_def)
    have here: "v ! i = ram c ! (unat (I c) + i)"
      using v(4) 1(3,4) True by (simp add: c1_def)
    have k: "\<forall>k. i \<le> k \<and> k \<le> x \<longrightarrow> v ! k = ram c ! (unat (I c) + k)"
    proof (intro allI impI)
      fix k assume "i \<le> k \<and> k \<le> x"
      then consider "k = i" | "i + 1 \<le> k \<and> k \<le> x" by linarith
      then show "v ! k = ram c ! (unat (I c) + k)"
        using here v(3) by cases auto
    qed
    have o: "\<forall>k. \<not> (i \<le> k \<and> k \<le> x) \<longrightarrow> v ! k = V c ! k"
    proof (intro allI impI)
      fix k assume a: "\<not> (i \<le> k \<and> k \<le> x)"
      then have "\<not> (i + 1 \<le> k \<and> k \<le> x)" and "k \<noteq> i"
        using True by auto
      then show "v ! k = V c ! k" using v(4) by (simp add: c1_def)
    qed
    show ?thesis using s v(2) k o by blast
  qed
qed



lemma store_then_load:
  assumes "wf_chip8 c" and "fetch c = Inr w" and "op_class w = 0xF" and "NN (decode w) = 0x55"
    and "unat (I c) + unat (X (decode w)) < 4096"
  shows "\<exists>c1. emulate_chip8 config rnd c = Inr c1 \<and>
           c1 = c\<lparr>inst := decode w, PC := PC c + 2, ram := ram c1\<rparr> \<and>
           length (ram c1) = 4096 \<and>
           (\<forall>k \<le> unat (X (decode w)). ram c1 ! (unat (I c) + k) = V c ! k) \<and>
           (\<forall>a. \<not> (unat (I c) \<le> a \<and> a \<le> unat (I c) + unat (X (decode w))) \<longrightarrow>
                ram c1 ! a = ram c ! a) \<and>
           (\<forall>w'. fetch c1 = Inr w' \<and> op_class w' = 0xF \<and> NN (decode w') = 0x65 \<and>
                 X (decode w') = X (decode w) \<longrightarrow>
              (\<exists>c2. emulate_chip8 config rnd' c1 = Inr c2 \<and>
                    c2 = c1\<lparr>inst := decode w', PC := PC c1 + 2, V := V c2\<rparr> \<and>
                    V c2 = V c \<and> I c2 = I c))"
proof -
  let ?x = "unat (X (decode w))"
  let ?c0 = "c\<lparr>inst := decode w, PC := PC c + 2\<rparr>"
  have lens: "length (ram c) = 4096" "length (V c) = 16"
    using assms(1) by (simp_all add: wf_chip8_def)
  have x16: "?x < 16" by (rule X_decode_lt)
  obtain r where r: "store_regs ?x 0 ?c0 = Inr (?c0\<lparr>ram := r\<rparr>)" "length r = 4096"
    "\<forall>k. 0 \<le> k \<and> k \<le> ?x \<longrightarrow> r ! (unat (I c) + k) = V c ! k"
    "\<forall>a. \<not> (unat (I c) + 0 \<le> a \<and> a \<le> unat (I c) + ?x) \<longrightarrow> r ! a = ram c ! a"
    using store_regs_spec[of ?c0 ?x 0] assms(5) lens by auto
  define c1 where "c1 = ?c0\<lparr>ram := r\<rparr>"
  have e1: "emulate_chip8 config rnd c = Inr c1"
    using assms(2-4) r(1) by (simp add: emulate_fetch execute_def exec_F_def c1_def)
  have c1f: "I c1 = I c" "V c1 = V c" "ram c1 = r" "length (V c1) = 16"
    using lens by (simp_all add: c1_def)
  have second: "\<exists>c2. emulate_chip8 config rnd' c1 = Inr c2 \<and>
                    c2 = c1\<lparr>inst := decode w', PC := PC c1 + 2, V := V c2\<rparr> \<and>
                    V c2 = V c \<and> I c2 = I c"
    if h: "fetch c1 = Inr w'" "op_class w' = 0xF" "NN (decode w') = 0x65"
      "X (decode w') = X (decode w)" for w'
  proof -
    let ?d = "c1\<lparr>inst := decode w', PC := PC c1 + 2\<rparr>"
    obtain v where v: "load_regs ?x 0 ?d = Inr (?d\<lparr>V := v\<rparr>)" "length v = 16"
      "\<forall>k. 0 \<le> k \<and> k \<le> ?x \<longrightarrow> v ! k = r ! (unat (I c) + k)"
      "\<forall>k. \<not> (0 \<le> k \<and> k \<le> ?x) \<longrightarrow> v ! k = V c ! k"
      using load_regs_spec[of ?d ?x 0] assms(5) x16 c1f by auto
    have e2: "emulate_chip8 config rnd' c1 = Inr (?d\<lparr>V := v\<rparr>)"
      using h v(1) by (simp add: emulate_fetch execute_def exec_F_def)
    have "v ! k = V c ! k" for k
      using v(3,4) r(3) by (cases "k \<le> ?x") auto
    then have "v = V c"
      using v(2) lens by (simp add: list_eq_iff_nth_eq)
    then show ?thesis using e2 c1f by simp
  qed
  show ?thesis
    using e1 r(2,3,4) second by (simp add: c1_def)
qed

lemma load_exec:
  assumes "wf_chip8 d" and "fetch d = Inr w" and "op_class w = 0xF" and "NN (decode w) = 0x65"
    and "unat (I d) + unat (X (decode w)) < 4096"
  shows "\<exists>d2. emulate_chip8 config rnd d = Inr d2 \<and>
           d2 = d\<lparr>inst := decode w, PC := PC d + 2, V := V d2\<rparr> \<and>
           length (V d2) = 16 \<and>
           (\<forall>k \<le> unat (X (decode w)). V d2 ! k = ram d ! (unat (I d) + k)) \<and>
           (\<forall>k. unat (X (decode w)) < k \<longrightarrow> V d2 ! k = V d ! k)"
proof -
  let ?x = "unat (X (decode w))"
  let ?d0 = "d\<lparr>inst := decode w, PC := PC d + 2\<rparr>"
  have len: "length (V ?d0) = 16" using assms(1) by (simp add: wf_chip8_def)
  have x16: "?x < 16" by (rule X_decode_lt)
  have rd: "unat (I ?d0) + ?x < 4096" using assms(5) by simp
  have "\<exists>v. load_regs ?x 0 ?d0 = Inr (?d0\<lparr>V := v\<rparr>) \<and> length v = 16 \<and>
       (\<forall>k. 0 \<le> k \<and> k \<le> ?x \<longrightarrow> v ! k = ram ?d0 ! (unat (I ?d0) + k)) \<and>
       (\<forall>k. \<not> (0 \<le> k \<and> k \<le> ?x) \<longrightarrow> v ! k = V ?d0 ! k)"
    by (rule load_regs_spec[OF rd x16 len])
  then obtain v where v: "load_regs ?x 0 ?d0 = Inr (?d0\<lparr>V := v\<rparr>)" "length v = 16"
    "\<forall>k \<le> ?x. v ! k = ram d ! (unat (I d) + k)"
    "\<forall>k. ?x < k \<longrightarrow> v ! k = V d ! k"
    by auto
  have "emulate_chip8 config rnd d = Inr (?d0\<lparr>V := v\<rparr>)"
    using assms(2-4) v(1) by (simp add: emulate_fetch execute_def exec_F_def)
  then show ?thesis using v(2,3,4) by simp
qed

text \<open>
  C7: for every \<open>X\<close>, every register file and every \<open>I\<close> with \<open>I + X < 4096\<close>: executing
  \<^verbatim>\<open>FX55\<close> on a state \<open>c\<close> succeeds and copies \<open>V[0..X]\<close> into \<open>ram[I..I+X]\<close>, changing no
  other byte, no register and not \<open>I\<close>; executing \<^verbatim>\<open>FX65\<close> on any state \<open>d\<close> succeeds and
  loads \<open>V[k]\<close> from \<open>ram[I+k]\<close> for every \<open>k \<le> X\<close>, leaving the registers above \<open>X\<close>,
  \<open>I\<close> and memory as they were; and if the instruction fetched after the \<^verbatim>\<open>FX55\<close> is
  \<^verbatim>\<open>FX65\<close> with the same \<open>X\<close>, executing it leaves every register with its value from
  before the \<^verbatim>\<open>FX55\<close>, and \<open>I\<close> unchanged.
\<close>

theorem store_load_roundtrip:
  assumes "wf_chip8 c" and "fetch c = Inr w" and "op_class w = 0xF" and "NN (decode w) = 0x55"
    and "unat (I c) + unat (X (decode w)) < 4096"
    and "wf_chip8 d" and "fetch d = Inr u" and "op_class u = 0xF" and "NN (decode u) = 0x65"
    and "unat (I d) + unat (X (decode u)) < 4096"
  shows "(\<exists>c1. emulate_chip8 config rnd c = Inr c1 \<and>
           c1 = c\<lparr>inst := decode w, PC := PC c + 2, ram := ram c1\<rparr> \<and>
           length (ram c1) = 4096 \<and>
           (\<forall>k \<le> unat (X (decode w)). ram c1 ! (unat (I c) + k) = V c ! k) \<and>
           (\<forall>a. \<not> (unat (I c) \<le> a \<and> a \<le> unat (I c) + unat (X (decode w))) \<longrightarrow>
                ram c1 ! a = ram c ! a) \<and>
           (\<forall>w'. fetch c1 = Inr w' \<and> op_class w' = 0xF \<and> NN (decode w') = 0x65 \<and>
                 X (decode w') = X (decode w) \<longrightarrow>
              (\<exists>c2. emulate_chip8 config rnd' c1 = Inr c2 \<and>
                    c2 = c1\<lparr>inst := decode w', PC := PC c1 + 2, V := V c2\<rparr> \<and>
                    V c2 = V c \<and> I c2 = I c))) \<and>
         (\<exists>d2. emulate_chip8 config rnd' d = Inr d2 \<and>
           d2 = d\<lparr>inst := decode u, PC := PC d + 2, V := V d2\<rparr> \<and>
           length (V d2) = 16 \<and>
           (\<forall>k \<le> unat (X (decode u)). V d2 ! k = ram d ! (unat (I d) + k)) \<and>
           (\<forall>k. unat (X (decode u)) < k \<longrightarrow> V d2 ! k = V d ! k))"
  using store_then_load[OF assms(1-5), of config rnd rnd'] load_exec[OF assms(6-10), of config rnd']
  by blast

theorem store_load_roundtrip_witness:
  "wf_chip8 regs_state \<and> fetch regs_state = Inr 0xF255 \<and> I regs_state = 0x300 \<and>
   (\<exists>c1 c2. emulate_chip8 set_config 0 regs_state = Inr c1 \<and>
       ram c1 ! 0x300 = 11 \<and> ram c1 ! 0x301 = 22 \<and> ram c1 ! 0x302 = 33 \<and>
       fetch c1 = Inr 0xF265 \<and>
       emulate_chip8 set_config 0 c1 = Inr c2 \<and> V c2 = V regs_state \<and> I c2 = 0x300) \<and>
   wf_chip8 load_state \<and> fetch load_state = Inr 0xF265 \<and>
   V load_state ! 0 = 11 \<and> V load_state ! 1 = 22 \<and> V load_state ! 2 = 33 \<and>
   V load_state ! 3 = 44 \<and>
   (\<exists>d2. emulate_chip8 set_config 0 load_state = Inr d2 \<and>
       V d2 ! 0 = 7 \<and> V d2 ! 1 = 8 \<and> V d2 ! 2 = 9 \<and> V d2 ! 3 = 44 \<and>
       I d2 = 0x300 \<and> ram d2 = ram load_state)"
proof -
  have d1: "wf_chip8 load_state"
    by (simp add: load_state_def wf_chip8_def chip8_zero_def copy_into_def)
  have d2: "fetch load_state = Inr 0xF265"
    by (simp add: load_state_def fetch_def ram_read_def chip8_zero_def copy_into_def nth_append)
  have d4: "I load_state = 0x300" "PC load_state = 0x200"
    "V load_state ! 0 = 11" "V load_state ! 1 = 22" "V load_state ! 2 = 33" "V load_state ! 3 = 44"
    "ram load_state ! 0x300 = 7" "ram load_state ! 0x301 = 8" "ram load_state ! 0x302 = 9"
    by (simp_all add: load_state_def chip8_zero_def copy_into_def nth_append)
  have 1: "wf_chip8 regs_state"
    using wf_at_entry[of "[0xF2, 0x55, 0xF2, 0x65]"]
    by (simp add: regs_state_def wf_chip8_def chip8_zero_def)
  have 2: "fetch regs_state = Inr 0xF255"
    by (simp add: regs_state_def fetch_def ram_read_def at_entry_def chip8_zero_def
        copy_into_def nth_append)
  have 3: "op_class 0xF255 = 0xF" "NN (decode 0xF255) = 0x55" "X (decode 0xF255) = 2"
    "op_class 0xF265 = 0xF" "NN (decode 0xF265) = 0x65" "X (decode 0xF265) = 2"
    by (simp_all add: op_class_def decode_def)
  have 4: "I regs_state = 0x300" "PC regs_state = 0x200" "V regs_state ! 0 = 11"
    "V regs_state ! 1 = 22" "V regs_state ! 2 = 33"
    "ram regs_state ! 0x202 = 0xF2" "ram regs_state ! 0x203 = 0x65"
    by (simp_all add: regs_state_def at_entry_def chip8_zero_def copy_into_def nth_append)
  have 5: "unat (I regs_state) + unat (X (decode 0xF255)) < 4096" by (simp add: 3 4)
  have d5: "unat (I load_state) + unat (X (decode 0xF265)) < 4096" by (simp add: 3 d4)
  note t = store_load_roundtrip[OF 1 2 3(1) 3(2) 5 d1 d2 3(4) 3(5) d5,
      where config=set_config and rnd=0 and rnd'=0]
  obtain e2 where e2: "emulate_chip8 set_config 0 load_state = Inr e2"
    "e2 = load_state\<lparr>inst := decode 0xF265, PC := PC load_state + 2, V := V e2\<rparr>"
    "\<forall>k \<le> unat (X (decode 0xF265)). V e2 ! k = ram load_state ! (unat (I load_state) + k)"
    "\<forall>k. unat (X (decode 0xF265)) < k \<longrightarrow> V e2 ! k = V load_state ! k"
    using t[THEN conjunct2] by blast
  have lv: "V e2 ! 0 = 7" "V e2 ! 1 = 8" "V e2 ! 2 = 9" "V e2 ! 3 = 44"
    using e2(3)[rule_format, of 0] e2(3)[rule_format, of 1] e2(3)[rule_format, of 2]
      e2(4)[rule_format, of 3] d4
    by (simp_all add: 3)
  have lf: "I e2 = 0x300" "ram e2 = ram load_state"
    using arg_cong[OF e2(2), of I] arg_cong[OF e2(2), of ram] by (simp_all add: d4)
  have load: "\<exists>d2. emulate_chip8 set_config 0 load_state = Inr d2 \<and>
       V d2 ! 0 = 7 \<and> V d2 ! 1 = 8 \<and> V d2 ! 2 = 9 \<and> V d2 ! 3 = 44 \<and>
       I d2 = 0x300 \<and> ram d2 = ram load_state"
    using e2(1) lv lf by blast
  obtain c1 where c1: "emulate_chip8 set_config 0 regs_state = Inr c1"
    "c1 = regs_state\<lparr>inst := decode 0xF255, PC := PC regs_state + 2, ram := ram c1\<rparr>"
    "\<forall>k \<le> unat (X (decode 0xF255)). ram c1 ! (unat (I regs_state) + k) = V regs_state ! k"
    "\<forall>a. \<not> (unat (I regs_state) \<le> a \<and> a \<le> unat (I regs_state) + unat (X (decode 0xF255))) \<longrightarrow>
        ram c1 ! a = ram regs_state ! a"
    "\<forall>w'. fetch c1 = Inr w' \<and> op_class w' = 0xF \<and> NN (decode w') = 0x65 \<and>
          X (decode w') = X (decode 0xF255) \<longrightarrow>
       (\<exists>c2. emulate_chip8 set_config 0 c1 = Inr c2 \<and>
             c2 = c1\<lparr>inst := decode w', PC := PC c1 + 2, V := V c2\<rparr> \<and>
             V c2 = V regs_state \<and> I c2 = I regs_state)"
    using t[THEN conjunct1] by blast
  have pc: "PC c1 = 0x202"
    using arg_cong[OF c1(2), of PC] by (simp add: 4)
  have m: "ram c1 ! 0x300 = 11" "ram c1 ! 0x301 = 22" "ram c1 ! 0x302 = 33"
    using c1(3)[rule_format, of 0] c1(3)[rule_format, of 1] c1(3)[rule_format, of 2] 4
    by (simp_all add: 3)
  have "ram c1 ! 0x202 = 0xF2" "ram c1 ! 0x203 = 0x65"
    using c1(4)[rule_format, of "0x202"] c1(4)[rule_format, of "0x203"] by (simp_all add: 3 4)
  then have f: "fetch c1 = Inr 0xF265"
    by (simp add: fetch_def ram_read_def pc)
  obtain c2 where "emulate_chip8 set_config 0 c1 = Inr c2" "V c2 = V regs_state"
    "I c2 = I regs_state"
    using c1(5)[rule_format, of "0xF265"] f 3 by auto
  then have store: "\<exists>c1 c2. emulate_chip8 set_config 0 regs_state = Inr c1 \<and>
       ram c1 ! 0x300 = 11 \<and> ram c1 ! 0x301 = 22 \<and> ram c1 ! 0x302 = 33 \<and>
       fetch c1 = Inr 0xF265 \<and>
       emulate_chip8 set_config 0 c1 = Inr c2 \<and> V c2 = V regs_state \<and> I c2 = 0x300"
    using 4 c1(1) m f by auto
  show ?thesis
    using 1 2 4(1) store d1 d2 d4(3-6) load by blast
qed

section \<open>\<^verbatim>\<open>DXYN\<close>: sprite drawing\<close>

lemma sprite_bit_iff: "(sd AND 2 ^ k \<noteq> 0) = bit (sd :: 8 word) k"
  by (simp add: and_exp_eq_0_iff_not_bit)

lemma cell_inj:
  assumes "x < 64" and "x' < 64"
  shows "(y * 64 + x = y' * 64 + x') = (y = y' \<and> x = (x'::nat))"
proof
  assume e: "y * 64 + x = y' * 64 + x'"
  have "(y * 64 + x) div 64 = y" "(y' * 64 + x') div 64 = y'"
    "(y * 64 + x) mod 64 = x" "(y' * 64 + x') mod 64 = x'"
    using assms by simp_all
  then show "y = y' \<and> x = x'" using e by metis
next
  assume "y = y' \<and> x = x'"
  then show "y * 64 + x = y' * 64 + x'" by simp
qed

lemma draw_bits_done: "j < 0 \<Longrightarrow> draw_bits config sd Yc Xc j c = Inr c"
  by (subst draw_bits.simps) simp

lemma draw_bits_step:
  assumes "window_width config = 64" and "Yc < 32" and "Xc < 64" and "0 \<le> j"
  shows "draw_bits config sd Yc Xc j c =
     (let c2 = c\<lparr>V := (if bit sd (nat j) \<and> display c ! (Yc * 64 + Xc)
                       then (V c)[0xF := 1] else V c),
                 display := (display c)[Yc * 64 + Xc :=
                                (display c ! (Yc * 64 + Xc) \<noteq> bit sd (nat j))]\<rparr>
      in if Xc = 63 then Inr c2 else draw_bits config sd Yc (Xc + 1) (j - 1) c2)"
proof -
  have idx: "(Yc * 64 + Xc) mod 4294967296 = Yc * 64 + Xc" "Yc * 64 + Xc < 2048"
    using assms(2,3) by simp_all
  have nx: "Suc Xc mod 256 = Suc Xc" "(63 \<le> Xc) = (Xc = 63)"
    using assms(3) by auto
  show ?thesis
    using assms(1,4)
    by (subst draw_bits.simps) (simp add: idx nx Let_def sprite_bit_iff)
qed

lemma draw_bits_spec:
  assumes w: "window_width config = 64" and y: "Yc < 32"
  shows "Xc < 64 \<Longrightarrow> k \<le> 8 \<Longrightarrow> length (display c) = 2048 \<Longrightarrow>
    \<exists>D v. draw_bits config sd Yc Xc (int k - 1) c = Inr (c\<lparr>V := v, display := D\<rparr>) \<and>
      length D = 2048 \<and>
      (\<forall>y<32. \<forall>x<64. D ! (y * 64 + x) =
          (display c ! (y * 64 + x) \<noteq>
             (y = Yc \<and> Xc \<le> x \<and> x < Xc + k \<and> bit sd (k - 1 - (x - Xc))))) \<and>
      v = (if \<exists>x<64. Xc \<le> x \<and> x < Xc + k \<and> bit sd (k - 1 - (x - Xc)) \<and>
                    display c ! (Yc * 64 + x)
           then (V c)[0xF := 1] else V c)"
proof (induction k arbitrary: Xc c)
  case 0
  have "draw_bits config sd Yc Xc (int 0 - 1) c = Inr (c\<lparr>V := V c, display := display c\<rparr>)"
    by (simp add: draw_bits_done)
  then show ?case using 0 by (intro exI[of _ "display c"] exI[of _ "V c"]) auto
next
  case (Suc k)
  let ?p = "display c ! (Yc * 64 + Xc)"
  let ?b = "bit sd k"
  define c2 where "c2 = c\<lparr>V := (if ?b \<and> ?p then (V c)[0xF := 1] else V c),
                 display := (display c)[Yc * 64 + Xc := (?p \<noteq> ?b)]\<rparr>"
  have step: "draw_bits config sd Yc Xc (int (Suc k) - 1) c =
          (if Xc = 63 then Inr c2 else draw_bits config sd Yc (Xc + 1) (int k - 1) c2)"
    using draw_bits_step[OF w y Suc.prems(1), of "int k" sd c] by (simp add: c2_def Let_def)
  have d2: "\<forall>y<32. \<forall>x<64. display c2 ! (y * 64 + x) =
              (display c ! (y * 64 + x) \<noteq> (y = Yc \<and> x = Xc \<and> ?b))"
    using Suc.prems(1,3) y by (auto simp add: c2_def nth_list_update cell_inj)
  have l2: "length (display c2) = 2048" using Suc.prems(3) by (simp add: c2_def)
  show ?case
  proof (cases "Xc = 63")
    case True
    have e: "draw_bits config sd Yc Xc (int (Suc k) - 1) c =
              Inr (c\<lparr>V := V c2, display := display c2\<rparr>)"
      using step True by (simp add: c2_def)
    have cells: "\<forall>y<32. \<forall>x<64. display c2 ! (y * 64 + x) =
          (display c ! (y * 64 + x) \<noteq>
             (y = Yc \<and> Xc \<le> x \<and> x < Xc + Suc k \<and> bit sd (Suc k - 1 - (x - Xc))))"
      using d2 True by auto
    have v: "V c2 = (if \<exists>x<64. Xc \<le> x \<and> x < Xc + Suc k \<and> bit sd (Suc k - 1 - (x - Xc)) \<and>
                    display c ! (Yc * 64 + x)
           then (V c)[0xF := 1] else V c)"
    proof -
      have "(\<exists>x<64. Xc \<le> x \<and> x < Xc + Suc k \<and> bit sd (Suc k - 1 - (x - Xc)) \<and>
                    display c ! (Yc * 64 + x)) \<longleftrightarrow> (?b \<and> ?p)" (is "?l \<longleftrightarrow> ?r")
      proof
        assume ?l
        then obtain x where x: "x < 64" "Xc \<le> x" "bit sd (Suc k - 1 - (x - Xc))"
          "display c ! (Yc * 64 + x)" by blast
        then have "x = Xc" using True by linarith
        then show ?r using x by simp
      next
        assume ?r
        then show ?l using Suc.prems(1) by (intro exI[of _ Xc]) auto
      qed
      then show ?thesis by (simp add: c2_def)
    qed
    show ?thesis using e l2 cells v by blast
  next
    case False
    then have x1: "Xc + 1 < 64" using Suc.prems(1) by simp
    have k8: "k \<le> 8" using Suc.prems(2) by simp
    obtain D v where ih: "draw_bits config sd Yc (Xc + 1) (int k - 1) c2 =
                 Inr (c2\<lparr>V := v, display := D\<rparr>)" "length D = 2048"
      "\<forall>y<32. \<forall>x<64. D ! (y * 64 + x) =
          (display c2 ! (y * 64 + x) \<noteq>
             (y = Yc \<and> Xc + 1 \<le> x \<and> x < Xc + 1 + k \<and> bit sd (k - 1 - (x - (Xc + 1)))))"
      "v = (if \<exists>x<64. Xc + 1 \<le> x \<and> x < Xc + 1 + k \<and> bit sd (k - 1 - (x - (Xc + 1))) \<and>
                    display c2 ! (Yc * 64 + x)
           then (V c2)[0xF := 1] else V c2)"
      using Suc.IH[OF x1 k8 l2] by blast
    have e: "draw_bits config sd Yc Xc (int (Suc k) - 1) c = Inr (c\<lparr>V := v, display := D\<rparr>)"
      using step False ih(1) by (simp add: c2_def)
    have idx: "k - 1 - (x - (Xc + 1)) = Suc k - 1 - (x - Xc)" if "Xc + 1 \<le> x" "x < Xc + 1 + k" for x
      using that by simp
    have cells: "\<forall>y<32. \<forall>x<64. D ! (y * 64 + x) =
          (display c ! (y * 64 + x) \<noteq>
             (y = Yc \<and> Xc \<le> x \<and> x < Xc + Suc k \<and> bit sd (Suc k - 1 - (x - Xc))))"
    proof (intro allI impI)
      fix y x :: nat assume yx: "y < 32" "x < 64"
      show "D ! (y * 64 + x) =
          (display c ! (y * 64 + x) \<noteq>
             (y = Yc \<and> Xc \<le> x \<and> x < Xc + Suc k \<and> bit sd (Suc k - 1 - (x - Xc))))"
      proof (cases "x = Xc")
        case True
        then show ?thesis using ih(3) d2 yx by auto
      next
        case False
        then show ?thesis using ih(3) d2 yx idx[of x] by auto
      qed
    qed
    have hit: "(\<exists>x<64. Xc + 1 \<le> x \<and> x < Xc + 1 + k \<and> bit sd (k - 1 - (x - (Xc + 1))) \<and>
                    display c2 ! (Yc * 64 + x)) \<or> (?b \<and> ?p) \<longleftrightarrow>
               (\<exists>x<64. Xc \<le> x \<and> x < Xc + Suc k \<and> bit sd (Suc k - 1 - (x - Xc)) \<and>
                    display c ! (Yc * 64 + x))" (is "?l \<longleftrightarrow> ?r")
    proof
      assume ?l
      then show ?r
      proof
        assume "\<exists>x<64. Xc + 1 \<le> x \<and> x < Xc + 1 + k \<and> bit sd (k - 1 - (x - (Xc + 1))) \<and>
                    display c2 ! (Yc * 64 + x)"
        then obtain x where x: "x < 64" "Xc + 1 \<le> x" "x < Xc + 1 + k"
          "bit sd (k - 1 - (x - (Xc + 1)))" "display c2 ! (Yc * 64 + x)" by blast
        have "display c ! (Yc * 64 + x)" using d2 y x by auto
        then show ?r using x idx[of x] by (intro exI[of _ x]) auto
      next
        assume "?b \<and> ?p"
        then show ?r using Suc.prems(1) by (intro exI[of _ Xc]) auto
      qed
    next
      assume ?r
      then obtain x where x: "x < 64" "Xc \<le> x" "x < Xc + Suc k"
        "bit sd (Suc k - 1 - (x - Xc))" "display c ! (Yc * 64 + x)" by blast
      show ?l
      proof (cases "x = Xc")
        case True
        then show ?thesis using x by auto
      next
        case False
        then have "Xc + 1 \<le> x" "x < Xc + 1 + k" using x by auto
        moreover have "display c2 ! (Yc * 64 + x)" using d2 y x False by auto
        ultimately show ?thesis using x idx[of x] by (intro disjI1 exI[of _ x]) auto
      qed
    qed
    have v: "v = (if \<exists>x<64. Xc \<le> x \<and> x < Xc + Suc k \<and> bit sd (Suc k - 1 - (x - Xc)) \<and>
                    display c ! (Yc * 64 + x)
           then (V c)[0xF := 1] else V c)"
      using ih(4) hit by (auto simp add: c2_def)
    show ?thesis using e ih(2) cells v by blast
  qed
qed

lemma sprite_covers_0: "\<not> sprite_covers mem a 0 x0 y0 x y"
  by (simp add: sprite_covers_def)

lemma sprite_covers_Suc:
  "sprite_covers mem a (Suc r) x0 y0 x y \<longleftrightarrow>
     (y = y0 \<and> x0 \<le> x \<and> x < x0 + 8 \<and> bit (mem ! a) (8 - 1 - (x - x0))) \<or>
     sprite_covers mem (a + 1) r x0 (y0 + 1) x y"
proof (cases "y = y0")
  case True
  then show ?thesis by (auto simp add: sprite_covers_def)
next
  case False
  have "a + (y - y0) = a + 1 + (y - (y0 + 1))" if "y0 \<le> y" using that False by simp
  then show ?thesis using False by (auto simp add: sprite_covers_def)
qed

lemma draw_rows_done: "\<not> i < unat n \<Longrightarrow> draw_rows config n X0 Yc i c = Inr c"
  by (subst draw_rows.simps) simp

lemma draw_rows_step:
  assumes "window_height config = 32" and "Yc < 32" and "i < unat n" and "unat (I c) + i < 4096"
  shows "draw_rows config n X0 Yc i c =
     (case draw_bits config (ram c ! (unat (I c) + i)) Yc X0 7 c of
        Inl u \<Rightarrow> Inl u
      | Inr c1 \<Rightarrow> if Yc = 31 then Inr c1 else draw_rows config n X0 (Yc + 1) (i + 1) c1)"
proof -
  have ny: "Suc Yc mod 256 = Suc Yc" "(31 \<le> Yc) = (Yc = 31)"
    using assms(2) by auto
  show ?thesis
    using assms(1,3,4)
    by (subst draw_rows.simps) (simp add: ny Let_def ram_read_def split: sum.splits)
qed

lemma draw_rows_spec:
  assumes w: "window_width config = 64" and h: "window_height config = 32" and x0: "X0 < 64"
  shows "Yc < 32 \<Longrightarrow> unat n = i + m \<Longrightarrow>
         \<forall>r < min m (32 - Yc). unat (I c) + i + r < 4096 \<Longrightarrow>
         length (display c) = 2048 \<Longrightarrow>
    \<exists>D v. draw_rows config n X0 Yc i c = Inr (c\<lparr>V := v, display := D\<rparr>) \<and>
      length D = 2048 \<and>
      (\<forall>y<32. \<forall>x<64. D ! (y * 64 + x) =
          (display c ! (y * 64 + x) \<noteq> sprite_covers (ram c) (unat (I c) + i) m X0 Yc x y)) \<and>
      v = (if \<exists>y<32. \<exists>x<64. sprite_covers (ram c) (unat (I c) + i) m X0 Yc x y \<and>
                    display c ! (y * 64 + x)
           then (V c)[0xF := 1] else V c)"
proof (induction m arbitrary: i Yc c)
  case 0
  have "draw_rows config n X0 Yc i c = Inr (c\<lparr>V := V c, display := display c\<rparr>)"
    using 0(2) by (simp add: draw_rows_done)
  then show ?case
    using 0 by (intro exI[of _ "display c"] exI[of _ "V c"]) (simp add: sprite_covers_0)
next
  case (Suc m)
  let ?a = "unat (I c) + i"
  let ?sd = "ram c ! ?a"
  define row where "row = (\<lambda>x y. y = Yc \<and> X0 \<le> x \<and> x < X0 + 8 \<and> bit ?sd (8 - 1 - (x - X0)))"
  define rest where "rest = sprite_covers (ram c) (unat (I c) + (i + 1)) m X0 (Yc + 1)"
  define full where "full = sprite_covers (ram c) ?a (Suc m) X0 Yc"
  define d where "d = (\<lambda>x y. display c ! (y * 64 + x))"
  have i: "i < unat n" "?a < 4096"
    using Suc.prems(1,2) Suc.prems(3)[rule_format, of 0] by simp_all
  have "\<exists>D v. draw_bits config ?sd Yc X0 (int 8 - 1) c = Inr (c\<lparr>V := v, display := D\<rparr>) \<and>
      length D = 2048 \<and>
      (\<forall>y<32. \<forall>x<64. D ! (y * 64 + x) =
          (display c ! (y * 64 + x) \<noteq>
             (y = Yc \<and> X0 \<le> x \<and> x < X0 + 8 \<and> bit ?sd (8 - 1 - (x - X0))))) \<and>
      v = (if \<exists>x<64. X0 \<le> x \<and> x < X0 + 8 \<and> bit ?sd (8 - 1 - (x - X0)) \<and>
                    display c ! (Yc * 64 + x)
           then (V c)[0xF := 1] else V c)"
    by (rule draw_bits_spec[OF w Suc.prems(1) x0 _ Suc.prems(4)]) simp
  then obtain D1 v1 where r: "draw_bits config ?sd Yc X0 (int 8 - 1) c = Inr (c\<lparr>V := v1, display := D1\<rparr>)"
    "length D1 = 2048"
    "\<forall>y<32. \<forall>x<64. D1 ! (y * 64 + x) = (d x y \<noteq> row x y)"
    "v1 = (if \<exists>x<64. X0 \<le> x \<and> x < X0 + 8 \<and> bit ?sd (8 - 1 - (x - X0)) \<and>
                    display c ! (Yc * 64 + x)
           then (V c)[0xF := 1] else V c)"
    unfolding row_def d_def by blast
  define c1 where "c1 = c\<lparr>V := v1, display := D1\<rparr>"
  have step: "draw_rows config n X0 Yc i c =
          (if Yc = 31 then Inr c1 else draw_rows config n X0 (Yc + 1) (i + 1) c1)"
    using draw_rows_step[OF h Suc.prems(1) i, of X0] r(1) by (simp add: c1_def)
  have hit1: "(\<exists>x<64. X0 \<le> x \<and> x < X0 + 8 \<and> bit ?sd (8 - 1 - (x - X0)) \<and>
                    display c ! (Yc * 64 + x)) \<longleftrightarrow>
              (\<exists>y<32. \<exists>x<64. row x y \<and> d x y)"
    using Suc.prems(1) unfolding row_def d_def by auto
  have v1: "v1 = (if \<exists>y<32. \<exists>x<64. row x y \<and> d x y then (V c)[0xF := 1] else V c)"
    using r(4) unfolding hit1 .
  have split: "full x y \<longleftrightarrow> row x y \<or> rest x y" for x y
    unfolding full_def row_def rest_def
    using sprite_covers_Suc[of "ram c" ?a m X0 Yc x y] by (simp add: add.assoc)
  have excl: "\<not> (row x y \<and> rest x y)" for x y
    unfolding row_def rest_def by (auto simp add: sprite_covers_def)
  show ?case
  proof (cases "Yc = 31")
    case True
    have norest: "\<not> rest x y" if "y < 32" for x y
      using that True unfolding rest_def by (simp add: sprite_covers_def)
    have e: "draw_rows config n X0 Yc i c = Inr (c\<lparr>V := v1, display := D1\<rparr>)"
      using step True by (simp add: c1_def)
    have cells: "\<forall>y<32. \<forall>x<64. D1 ! (y * 64 + x) = (d x y \<noteq> full x y)"
      using r(3) norest by (simp add: split)
    have "(\<exists>y<32. \<exists>x<64. full x y \<and> d x y) \<longleftrightarrow> (\<exists>y<32. \<exists>x<64. row x y \<and> d x y)"
      unfolding split using norest by blast
    then have v: "v1 = (if \<exists>y<32. \<exists>x<64. full x y \<and> d x y then (V c)[0xF := 1] else V c)"
      using v1 by simp
    show ?thesis
      using e r(2) cells v unfolding full_def d_def by blast
  next
    case False
    then have y1: "Yc + 1 < 32" using Suc.prems(1) by simp
    have n1: "unat n = (i + 1) + m" using Suc.prems(2) by simp
    have c1f: "ram c1 = ram c" "I c1 = I c" "display c1 = D1" "V c1 = v1"
      by (simp_all add: c1_def)
    have p: "\<forall>r < min m (32 - (Yc + 1)). unat (I c1) + (i + 1) + r < 4096"
      "length (display c1) = 2048"
    proof -
      show "\<forall>r < min m (32 - (Yc + 1)). unat (I c1) + (i + 1) + r < 4096"
      proof (intro allI impI)
        fix r assume "r < min m (32 - (Yc + 1))"
        then have "r + 1 < min (Suc m) (32 - Yc)" using y1 by auto
        then have "unat (I c) + i + (r + 1) < 4096" using Suc.prems(3) by blast
        then show "unat (I c1) + (i + 1) + r < 4096" by (simp add: c1f)
      qed
      show "length (display c1) = 2048" using r(2) by (simp add: c1f)
    qed
    have "\<exists>D v. draw_rows config n X0 (Yc + 1) (i + 1) c1 = Inr (c1\<lparr>V := v, display := D\<rparr>) \<and>
      length D = 2048 \<and>
      (\<forall>y<32. \<forall>x<64. D ! (y * 64 + x) =
          (display c1 ! (y * 64 + x) \<noteq>
             sprite_covers (ram c1) (unat (I c1) + (i + 1)) m X0 (Yc + 1) x y)) \<and>
      v = (if \<exists>y<32. \<exists>x<64. sprite_covers (ram c1) (unat (I c1) + (i + 1)) m X0 (Yc + 1) x y \<and>
                    display c1 ! (y * 64 + x)
           then (V c1)[0xF := 1] else V c1)"
      by (rule Suc.IH[OF y1 n1 p])
    then obtain D v where ih: "draw_rows config n X0 (Yc + 1) (i + 1) c1 =
                 Inr (c1\<lparr>V := v, display := D\<rparr>)" "length D = 2048"
      "\<forall>y<32. \<forall>x<64. D ! (y * 64 + x) = (D1 ! (y * 64 + x) \<noteq> rest x y)"
      "v = (if \<exists>y<32. \<exists>x<64. rest x y \<and> D1 ! (y * 64 + x) then v1[0xF := 1] else v1)"
      unfolding c1f rest_def by blast
    have e: "draw_rows config n X0 Yc i c = Inr (c\<lparr>V := v, display := D\<rparr>)"
      using step False ih(1) by (simp add: c1_def)
    have cells: "\<forall>y<32. \<forall>x<64. D ! (y * 64 + x) = (d x y \<noteq> full x y)"
    proof (intro allI impI)
      fix y x :: nat assume yx: "y < 32" "x < 64"
      have "D ! (y * 64 + x) = (D1 ! (y * 64 + x) \<noteq> rest x y)"
        "D1 ! (y * 64 + x) = (d x y \<noteq> row x y)"
        using ih(3) r(3) yx by simp_all
      then show "D ! (y * 64 + x) = (d x y \<noteq> full x y)"
        using excl[of x y] split[of x y] by auto
    qed
    have same: "D1 ! (y * 64 + x) = d x y" if "y < 32" "x < 64" "rest x y" for x y
    proof -
      have "D1 ! (y * 64 + x) = (d x y \<noteq> row x y)" using r(3) that by simp
      then show ?thesis using excl[of x y] that(3) by auto
    qed
    have hit: "(\<exists>y<32. \<exists>x<64. full x y \<and> d x y) \<longleftrightarrow>
               (\<exists>y<32. \<exists>x<64. row x y \<and> d x y) \<or>
               (\<exists>y<32. \<exists>x<64. rest x y \<and> D1 ! (y * 64 + x))" (is "?l \<longleftrightarrow> ?m \<or> ?r")
    proof
      assume ?l
      then obtain y x where yx: "y < 32" "x < 64" "full x y" "d x y" by blast
      then consider "row x y" | "rest x y" using split by blast
      then show "?m \<or> ?r"
      proof cases
        case 1
        then show ?thesis using yx by blast
      next
        case 2
        then have "D1 ! (y * 64 + x)" using same yx by simp
        then show ?thesis using yx 2 by blast
      qed
    next
      assume "?m \<or> ?r"
      then show ?l
      proof
        assume ?m
        then show ?l using split by blast
      next
        assume ?r
        then obtain y x where yx: "y < 32" "x < 64" "rest x y" "D1 ! (y * 64 + x)" by blast
        then have "d x y" using same by simp
        then show ?l using yx split by blast
      qed
    qed
    have v: "v = (if \<exists>y<32. \<exists>x<64. full x y \<and> d x y then (V c)[0xF := 1] else V c)"
    proof -
      define A where "A \<longleftrightarrow> (\<exists>y<32. \<exists>x<64. row x y \<and> d x y)"
      define B where "B \<longleftrightarrow> (\<exists>y<32. \<exists>x<64. rest x y \<and> D1 ! (y * 64 + x))"
      have "v = (if B then v1[0xF := 1] else v1)" using ih(4) unfolding B_def .
      moreover have "v1 = (if A then (V c)[0xF := 1] else V c)" using v1 unfolding A_def .
      ultimately have "v = (if A \<or> B then (V c)[0xF := 1] else V c)"
        by (cases A; cases B) simp_all
      then show ?thesis unfolding hit A_def B_def .
    qed
    show ?thesis
      using e ih(2) cells v unfolding full_def d_def by blast
  qed
qed

lemma draw_rows_step':
  assumes "window_height config = 32" and "Yc < 32" and "i < unat n"
  shows "draw_rows config n X0 Yc i c =
     (case ram_read c (unat (I c) + i) of
        Inl u \<Rightarrow> Inl u
      | Inr sd \<Rightarrow>
         (case draw_bits config sd Yc X0 7 c of
            Inl u \<Rightarrow> Inl u
          | Inr c1 \<Rightarrow> if Yc = 31 then Inr c1 else draw_rows config n X0 (Yc + 1) (i + 1) c1))"
proof -
  have ny: "Suc Yc mod 256 = Suc Yc" "(31 \<le> Yc) = (Yc = 31)"
    using assms(2) by auto
  show ?thesis
    using assms(1,3)
    by (subst draw_rows.simps) (simp add: ny Let_def split: sum.splits)
qed

lemma draw_rows_frame:
  assumes w: "window_width config = 64" and h: "window_height config = 32" and x0: "X0 < 64"
  shows "Yc < 32 \<Longrightarrow> unat n = i + m \<Longrightarrow> length (display c) = 2048 \<Longrightarrow>
         draw_rows config n X0 Yc i c = Inr c' \<Longrightarrow>
         length (display c') = 2048 \<and>
         (\<forall>y<32. \<forall>x<64. display c' ! (y * 64 + x) \<noteq> display c ! (y * 64 + x) \<longrightarrow>
              X0 \<le> x \<and> x < X0 + 8 \<and> Yc \<le> y \<and> y < Yc + m)"
proof (induction m arbitrary: i Yc c)
  case 0
  then have "c' = c" by (simp add: draw_rows_done)
  then show ?case using 0 by simp
next
  case (Suc m)
  have i: "i < unat n" using Suc.prems(2) by simp
  obtain sd where sd: "ram_read c (unat (I c) + i) = Inr sd"
    using Suc.prems(4) draw_rows_step'[OF h Suc.prems(1) i, of X0 c]
    by (cases "ram_read c (unat (I c) + i)") simp_all
  have "\<exists>D v. draw_bits config sd Yc X0 (int 8 - 1) c = Inr (c\<lparr>V := v, display := D\<rparr>) \<and>
      length D = 2048 \<and>
      (\<forall>y<32. \<forall>x<64. D ! (y * 64 + x) =
          (display c ! (y * 64 + x) \<noteq>
             (y = Yc \<and> X0 \<le> x \<and> x < X0 + 8 \<and> bit sd (8 - 1 - (x - X0))))) \<and>
      v = (if \<exists>x<64. X0 \<le> x \<and> x < X0 + 8 \<and> bit sd (8 - 1 - (x - X0)) \<and>
                    display c ! (Yc * 64 + x)
           then (V c)[0xF := 1] else V c)"
    by (rule draw_bits_spec[OF w Suc.prems(1) x0 _ Suc.prems(3)]) simp
  then obtain D1 v1 where r: "draw_bits config sd Yc X0 7 c = Inr (c\<lparr>V := v1, display := D1\<rparr>)"
    "length D1 = 2048"
    "\<forall>y<32. \<forall>x<64. D1 ! (y * 64 + x) \<noteq> display c ! (y * 64 + x) \<longrightarrow>
        X0 \<le> x \<and> x < X0 + 8 \<and> y = Yc"
    by auto
  define c1 where "c1 = c\<lparr>V := v1, display := D1\<rparr>"
  have step: "(if Yc = 31 then Inr c1 else draw_rows config n X0 (Yc + 1) (i + 1) c1) = Inr c'"
    using draw_rows_step'[OF h Suc.prems(1) i, of X0 c] sd r(1) Suc.prems(4)
    by (simp add: c1_def)
  show ?case
  proof (cases "Yc = 31")
    case True
    then have "c' = c1" using step by simp
    then show ?thesis using r(2,3) by (auto simp add: c1_def)
  next
    case False
    then have y1: "Yc + 1 < 32" using Suc.prems(1) by simp
    have n1: "unat n = (i + 1) + m" using Suc.prems(2) by simp
    have l1: "length (display c1) = 2048" using r(2) by (simp add: c1_def)
    have rec: "draw_rows config n X0 (Yc + 1) (i + 1) c1 = Inr c'" using step False by simp
    have ih: "length (display c') = 2048"
      "\<forall>y<32. \<forall>x<64. display c' ! (y * 64 + x) \<noteq> D1 ! (y * 64 + x) \<longrightarrow>
              X0 \<le> x \<and> x < X0 + 8 \<and> Yc + 1 \<le> y \<and> y < Yc + 1 + m"
      using Suc.IH[OF y1 n1 l1 rec] by (simp_all add: c1_def)
    have "\<forall>y<32. \<forall>x<64. display c' ! (y * 64 + x) \<noteq> display c ! (y * 64 + x) \<longrightarrow>
              X0 \<le> x \<and> x < X0 + 8 \<and> Yc \<le> y \<and> y < Yc + Suc m"
    proof (intro allI impI)
      fix y x :: nat assume a: "y < 32" "x < 64"
        "display c' ! (y * 64 + x) \<noteq> display c ! (y * 64 + x)"
      then consider "display c' ! (y * 64 + x) \<noteq> D1 ! (y * 64 + x)"
        | "D1 ! (y * 64 + x) \<noteq> display c ! (y * 64 + x)" by auto
      then show "X0 \<le> x \<and> x < X0 + 8 \<and> Yc \<le> y \<and> y < Yc + Suc m"
      proof cases
        case 1
        then have "X0 \<le> x \<and> x < X0 + 8 \<and> Yc + 1 \<le> y \<and> y < Yc + 1 + m"
          using ih(2) a(1,2) by blast
        then show ?thesis by simp
      next
        case 2
        then have "X0 \<le> x \<and> x < X0 + 8 \<and> y = Yc"
          using r(3) a(1,2) by blast
        then show ?thesis by simp
      qed
    qed
    then show ?thesis using ih(1) by simp
  qed
qed

lemma exec_D_spec:
  assumes w: "window_width config = 64" and h: "window_height config = 32" and wf: "wf_chip8 c"
    and x0: "x0 = unat (V c ! unat (X (inst c))) mod 64"
    and y0: "y0 = unat (V c ! unat (Y (inst c))) mod 32"
    and rd: "\<forall>r < min (unat (N (inst c))) (32 - y0). unat (I c) + r < 4096"
  shows "\<exists>D. exec_D config c =
           Inr (c\<lparr>V := (V c)[0xF :=
                    (if \<exists>y<32. \<exists>x<64.
                          sprite_covers (ram c) (unat (I c)) (unat (N (inst c))) x0 y0 x y \<and>
                          display c ! (y * 64 + x)
                     then 1 else 0)],
                  display := D, draw := True\<rparr>) \<and>
           length D = 2048 \<and>
           (\<forall>y<32. \<forall>x<64. D ! (y * 64 + x) =
              (display c ! (y * 64 + x) \<noteq>
                 sprite_covers (ram c) (unat (I c)) (unat (N (inst c))) x0 y0 x y))"
proof -
  define c1 where "c1 = c\<lparr>V := (V c)[0xF := 0]\<rparr>"
  have f: "ram c1 = ram c" "I c1 = I c" "display c1 = display c" "V c1 = (V c)[0xF := 0]"
    "length (display c1) = 2048"
    using wf by (simp_all add: c1_def wf_chip8_def)
  have b: "x0 < 64" "y0 < 32" using x0 y0 by simp_all
  have p: "unat (N (inst c)) = 0 + unat (N (inst c))"
    "\<forall>r < min (unat (N (inst c))) (32 - y0). unat (I c1) + 0 + r < 4096"
    using rd by (simp_all add: f)
  have "\<exists>D v. draw_rows config (N (inst c)) x0 y0 0 c1 = Inr (c1\<lparr>V := v, display := D\<rparr>) \<and>
      length D = 2048 \<and>
      (\<forall>y<32. \<forall>x<64. D ! (y * 64 + x) =
          (display c1 ! (y * 64 + x) \<noteq>
             sprite_covers (ram c1) (unat (I c1) + 0) (unat (N (inst c))) x0 y0 x y)) \<and>
      v = (if \<exists>y<32. \<exists>x<64.
                 sprite_covers (ram c1) (unat (I c1) + 0) (unat (N (inst c))) x0 y0 x y \<and>
                 display c1 ! (y * 64 + x)
           then (V c1)[0xF := 1] else V c1)"
    by (rule draw_rows_spec[OF w h b(1) b(2) p f(5)])
  then obtain D v where r: "draw_rows config (N (inst c)) x0 y0 0 c1 = Inr (c1\<lparr>V := v, display := D\<rparr>)"
    "length D = 2048"
    "\<forall>y<32. \<forall>x<64. D ! (y * 64 + x) =
          (display c ! (y * 64 + x) \<noteq>
             sprite_covers (ram c) (unat (I c)) (unat (N (inst c))) x0 y0 x y)"
    "v = (if \<exists>y<32. \<exists>x<64.
                 sprite_covers (ram c) (unat (I c)) (unat (N (inst c))) x0 y0 x y \<and>
                 display c ! (y * 64 + x)
           then (V c)[0xF := 0, 0xF := 1] else (V c)[0xF := 0])"
    unfolding f by auto
  have m: "unat (V c ! unat (X (inst c))) mod 64 mod 256 = x0"
    "unat (V c ! unat (Y (inst c))) mod 32 mod 256 = y0"
    using x0 y0 by simp_all
  have e: "exec_D config c = Inr (c\<lparr>V := v, display := D, draw := True\<rparr>)"
    using w h r(1) by (simp add: exec_D_def Let_def m c1_def)
  have v: "v = (V c)[0xF := (if \<exists>y<32. \<exists>x<64.
                          sprite_covers (ram c) (unat (I c)) (unat (N (inst c))) x0 y0 x y \<and>
                          display c ! (y * 64 + x)
                     then 1 else 0)]"
  proof -
    define H where "H \<longleftrightarrow> (\<exists>y<32. \<exists>x<64.
                 sprite_covers (ram c) (unat (I c)) (unat (N (inst c))) x0 y0 x y \<and>
                 display c ! (y * 64 + x))"
    have "v = (if H then (V c)[0xF := 0, 0xF := 1] else (V c)[0xF := 0])"
      using r(4) unfolding H_def .
    then have "v = (V c)[0xF := (if H then 1 else 0)]" by (cases H) simp_all
    then show ?thesis unfolding H_def .
  qed
  show ?thesis using e r(2,3) v by blast
qed

lemma emulate_draw:
  "fetch c = Inr w \<Longrightarrow> op_class w = 0xD \<Longrightarrow>
   emulate_chip8 config rnd c = exec_D config (c\<lparr>inst := decode w, PC := PC c + 2\<rparr>)"
  by (simp add: emulate_fetch execute_def)

lemma exec_D_frame:
  assumes w: "window_width config = 64" and h: "window_height config = 32" and wf: "wf_chip8 c"
    and e: "exec_D config c = Inr c'"
    and x0: "x0 = unat (V c ! unat (X (inst c))) mod 64"
    and y0: "y0 = unat (V c ! unat (Y (inst c))) mod 32"
  shows "length (display c') = 2048 \<and>
         (\<forall>y<32. \<forall>x<64. display c' ! (y * 64 + x) \<noteq> display c ! (y * 64 + x) \<longrightarrow>
              x0 \<le> x \<and> x < x0 + 8 \<and> y0 \<le> y \<and> y < y0 + unat (N (inst c)))"
proof -
  define c1 where "c1 = c\<lparr>V := (V c)[0xF := 0]\<rparr>"
  have m: "unat (V c ! unat (X (inst c))) mod 64 mod 256 = x0"
    "unat (V c ! unat (Y (inst c))) mod 32 mod 256 = y0"
    using x0 y0 by simp_all
  have b: "x0 < 64" "y0 < 32" using x0 y0 by simp_all
  obtain c2 where c2: "draw_rows config (N (inst c)) x0 y0 0 c1 = Inr c2" "c' = c2\<lparr>draw := True\<rparr>"
    using e w h by (auto simp add: exec_D_def Let_def m c1_def split: sum.splits)
  have l: "length (display c1) = 2048" using wf by (simp add: c1_def wf_chip8_def)
  have "length (display c2) = 2048 \<and>
         (\<forall>y<32. \<forall>x<64. display c2 ! (y * 64 + x) \<noteq> display c1 ! (y * 64 + x) \<longrightarrow>
              x0 \<le> x \<and> x < x0 + 8 \<and> y0 \<le> y \<and> y < y0 + unat (N (inst c)))"
    by (rule draw_rows_frame[OF w h b(1) b(2) _ l c2(1)]) simp
  then show ?thesis using c2(2) by (simp add: c1_def)
qed

lemma draw_rows_reads:
  assumes w: "window_width config = 64" and h: "window_height config = 32" and x0: "X0 < 64"
  shows "Yc < 32 \<Longrightarrow> unat n = i + m \<Longrightarrow> length (display c) = 2048 \<Longrightarrow>
         draw_rows config n X0 Yc i c = Inr c' \<Longrightarrow>
         \<forall>r < min m (32 - Yc). unat (I c) + i + r < 4096"
proof (induction m arbitrary: i Yc c)
  case 0
  show ?case by simp
next
  case (Suc m)
  have i: "i < unat n" using Suc.prems(2) by simp
  obtain sd where sd: "ram_read c (unat (I c) + i) = Inr sd"
    using Suc.prems(4) draw_rows_step'[OF h Suc.prems(1) i, of X0 c]
    by (cases "ram_read c (unat (I c) + i)") simp_all
  have a: "unat (I c) + i < 4096"
    using sd by (simp add: ram_read_def split: if_splits)
  have "\<exists>D v. draw_bits config sd Yc X0 (int 8 - 1) c = Inr (c\<lparr>V := v, display := D\<rparr>) \<and>
      length D = 2048 \<and>
      (\<forall>y<32. \<forall>x<64. D ! (y * 64 + x) =
          (display c ! (y * 64 + x) \<noteq>
             (y = Yc \<and> X0 \<le> x \<and> x < X0 + 8 \<and> bit sd (8 - 1 - (x - X0))))) \<and>
      v = (if \<exists>x<64. X0 \<le> x \<and> x < X0 + 8 \<and> bit sd (8 - 1 - (x - X0)) \<and>
                    display c ! (Yc * 64 + x)
           then (V c)[0xF := 1] else V c)"
    by (rule draw_bits_spec[OF w Suc.prems(1) x0 _ Suc.prems(3)]) simp
  then obtain D1 v1 where r: "draw_bits config sd Yc X0 7 c = Inr (c\<lparr>V := v1, display := D1\<rparr>)"
    "length D1 = 2048"
    by auto
  define c1 where "c1 = c\<lparr>V := v1, display := D1\<rparr>"
  have step: "(if Yc = 31 then Inr c1 else draw_rows config n X0 (Yc + 1) (i + 1) c1) = Inr c'"
    using draw_rows_step'[OF h Suc.prems(1) i, of X0 c] sd r(1) Suc.prems(4)
    by (simp add: c1_def)
  show ?case
  proof (cases "Yc = 31")
    case True
    then show ?thesis using a by simp
  next
    case False
    then have y1: "Yc + 1 < 32" using Suc.prems(1) by simp
    have n1: "unat n = (i + 1) + m" using Suc.prems(2) by simp
    have l1: "length (display c1) = 2048" using r(2) by (simp add: c1_def)
    have rec: "draw_rows config n X0 (Yc + 1) (i + 1) c1 = Inr c'" using step False by simp
    have ih: "\<forall>r < min m (32 - (Yc + 1)). unat (I c) + (i + 1) + r < 4096"
      using Suc.IH[OF y1 n1 l1 rec] by (simp add: c1_def)
    show ?thesis
    proof (intro allI impI)
      fix r assume r: "r < min (Suc m) (32 - Yc)"
      show "unat (I c) + i + r < 4096"
      proof (cases r)
        case 0
        then show ?thesis using a by simp
      next
        case (Suc r')
        then have "r' < min m (32 - (Yc + 1))" using r by auto
        then have "unat (I c) + (i + 1) + r' < 4096" using ih by blast
        then show ?thesis using Suc by simp
      qed
    qed
  qed
qed

lemma exec_D_reads:
  assumes w: "window_width config = 64" and h: "window_height config = 32" and wf: "wf_chip8 c"
    and e: "exec_D config c = Inr c'"
    and x0: "x0 = unat (V c ! unat (X (inst c))) mod 64"
    and y0: "y0 = unat (V c ! unat (Y (inst c))) mod 32"
  shows "\<forall>r < min (unat (N (inst c))) (32 - y0). unat (I c) + r < 4096"
proof -
  define c1 where "c1 = c\<lparr>V := (V c)[0xF := 0]\<rparr>"
  have m: "unat (V c ! unat (X (inst c))) mod 64 mod 256 = x0"
    "unat (V c ! unat (Y (inst c))) mod 32 mod 256 = y0"
    using x0 y0 by simp_all
  have b: "x0 < 64" "y0 < 32" using x0 y0 by simp_all
  obtain c2 where c2: "draw_rows config (N (inst c)) x0 y0 0 c1 = Inr c2"
    using e w h by (auto simp add: exec_D_def Let_def m c1_def split: sum.splits)
  have l: "length (display c1) = 2048" using wf by (simp add: c1_def wf_chip8_def)
  have "\<forall>r < min (unat (N (inst c))) (32 - y0). unat (I c1) + 0 + r < 4096"
    by (rule draw_rows_reads[OF w h b(1) b(2) _ l c2]) simp
  then show ?thesis by (simp add: c1_def)
qed

lemma display_eqI:
  assumes "length D = 2048" and "length D' = 2048"
    and "\<forall>y<32. \<forall>x<64. D ! (y * 64 + x) = D' ! (y * 64 + (x::nat))"
  shows "D = D'"
proof (rule nth_equalityI)
  show "length D = length D'" using assms(1,2) by simp
next
  fix i assume "i < length D"
  then have i: "i < 2048" using assms(1) by simp
  have "i div 64 < 32" "i mod 64 < 64" "i div 64 * 64 + i mod 64 = i"
    using i by simp_all
  then show "D ! i = D' ! i" using assms(3) by metis
qed

lemma list_update_same: "xs ! i = v \<Longrightarrow> xs[i := v] = xs"
  by (metis list_update_id)

lemmas draw_eval = list_update_same exec_D_def set_config_def decode_def draw_state_def
  chip8_zero_def copy_into_def draw_rows.simps draw_bits.simps ram_read_def nth_append Let_def
  emulate_chip8_def fetch_def execute_def op_class_def

lemma wf_draw_state:
  "length sprite \<le> 3328 \<Longrightarrow> length disp = 2048 \<Longrightarrow> wf_chip8 (draw_state n v0 sprite disp)"
  by (simp add: draw_state_def wf_chip8_def chip8_zero_def copy_into_def)

lemma fetch_draw_state:
  "fetch (draw_state n v0 sprite disp) = Inr (push_bit 8 0xD0 OR ucast n)"
  by (simp add: draw_state_def chip8_zero_def fetch_def ram_read_def copy_into_def nth_append)

text \<open>
  C4: for a \<^verbatim>\<open>DXYN\<close> executed on any machine state with the 64 by 32 display, with
  \<open>(x0, y0) = (V[X] mod 64, V[Y] mod 32)\<close>: whenever the step completes, the display still
  has its 2048 cells and a cell \<open>(x, y)\<close> of the grid can differ from before only if
  \<open>x0 \<le> x \<le> 63\<close> and \<open>y0 \<le> y \<le> 31\<close> (and, more precisely, \<open>x < x0 + 8\<close> and
  \<open>y < y0 + N\<close>): columns and rows past the right and bottom edges are dropped, not
  wrapped to the other side. The step completes whenever the \<open>N\<close> sprite bytes at \<open>I\<close> lie
  inside memory.
\<close>

theorem draw_clips:
  assumes "window_width config = 64" and "window_height config = 32" and "wf_chip8 c"
    and "fetch c = Inr w" and "op_class w = 0xD"
    and "x0 = unat (V c ! unat (X (decode w))) mod 64"
    and "y0 = unat (V c ! unat (Y (decode w))) mod 32"
  shows "(\<forall>c'. emulate_chip8 config rnd c = Inr c' \<longrightarrow>
            length (display c') = 2048 \<and>
            (\<forall>y<32. \<forall>x<64. display c' ! (y * 64 + x) \<noteq> display c ! (y * 64 + x) \<longrightarrow>
               x0 \<le> x \<and> x \<le> 63 \<and> y0 \<le> y \<and> y \<le> 31 \<and>
               x < x0 + 8 \<and> y < y0 + unat (N (decode w)))) \<and>
         (unat (I c) + unat (N (decode w)) \<le> 4096 \<longrightarrow>
            (\<exists>c'. emulate_chip8 config rnd c = Inr c'))"
proof -
  let ?c0 = "c\<lparr>inst := decode w, PC := PC c + 2\<rparr>"
  have wf0: "wf_chip8 ?c0" using assms(3) by (simp add: wf_chip8_def)
  have e: "emulate_chip8 config rnd c = exec_D config ?c0"
    by (rule emulate_draw[OF assms(4,5)])
  have x0: "x0 = unat (V ?c0 ! unat (X (inst ?c0))) mod 64"
    and y0: "y0 = unat (V ?c0 ! unat (Y (inst ?c0))) mod 32"
    using assms(6,7) by simp_all
  have 1: "length (display c') = 2048 \<and>
            (\<forall>y<32. \<forall>x<64. display c' ! (y * 64 + x) \<noteq> display c ! (y * 64 + x) \<longrightarrow>
               x0 \<le> x \<and> x \<le> 63 \<and> y0 \<le> y \<and> y \<le> 31 \<and>
               x < x0 + 8 \<and> y < y0 + unat (N (decode w)))"
    if "emulate_chip8 config rnd c = Inr c'" for c'
  proof -
    have "exec_D config ?c0 = Inr c'" using that e by simp
    from exec_D_frame[OF assms(1,2) wf0 this x0 y0]
    show ?thesis by auto
  qed
  have 2: "\<exists>c'. emulate_chip8 config rnd c = Inr c'"
    if "unat (I c) + unat (N (decode w)) \<le> 4096"
  proof -
    have "\<forall>r < min (unat (N (inst ?c0))) (32 - y0). unat (I ?c0) + r < 4096"
      using that by simp
    from exec_D_spec[OF assms(1,2) wf0 x0 y0 this]
    show ?thesis unfolding e by blast
  qed
  show ?thesis using 1 2 by blast
qed

theorem draw_clips_witness:
  "wf_chip8 corner_sprite \<and> fetch corner_sprite = Inr 0xD002 \<and> V corner_sprite ! 0 = 63 \<and>
   (\<exists>c'. emulate_chip8 set_config 0 corner_sprite = Inr c' \<and> length (display c') = 2048 \<and>
      \<not> display c' ! (31 * 64 + 0) \<and> \<not> display c' ! (0 * 64 + 63) \<and> \<not> display c' ! (0 * 64 + 0))"
proof -
  have 1: "wf_chip8 corner_sprite"
    unfolding corner_sprite_def by (rule wf_draw_state) simp_all
  have 2: "fetch corner_sprite = Inr 0xD002"
    by (simp add: corner_sprite_def fetch_draw_state)
  have 3: "op_class 0xD002 = 0xD" "X (decode 0xD002) = 0" "Y (decode 0xD002) = 0"
    "N (decode 0xD002) = 2"
    by (simp_all add: op_class_def decode_def)
  have 4: "window_width set_config = 64" "window_height set_config = 32"
    by (simp_all add: set_config_def)
  have 5: "I corner_sprite = 0x300" "V corner_sprite ! 0 = 63"
    "display corner_sprite = replicate 2048 False"
    by (simp_all add: corner_sprite_def draw_state_def chip8_zero_def)
  have 6: "unat (I corner_sprite) + unat (N (decode 0xD002)) \<le> 4096" by (simp add: 3 5)
  have 7: "(63::nat) = unat (V corner_sprite ! unat (X (decode 0xD002))) mod 64"
    "(31::nat) = unat (V corner_sprite ! unat (Y (decode 0xD002))) mod 32"
    by (simp_all add: 3 5)
  note t = draw_clips[OF 4 1 2 3(1) 7, of 0]
  obtain c' where c: "emulate_chip8 set_config 0 corner_sprite = Inr c'"
    using t 6 by blast
  have l: "length (display c') = 2048"
    and fr: "\<forall>y<32. \<forall>x<64. display c' ! (y * 64 + x) \<noteq> display corner_sprite ! (y * 64 + x) \<longrightarrow>
               63 \<le> x \<and> 31 \<le> y"
    using t c by auto
  have "display c' ! (31 * 64 + 0) = display corner_sprite ! (31 * 64 + 0)"
    "display c' ! (0 * 64 + 63) = display corner_sprite ! (0 * 64 + 63)"
    "display c' ! (0 * 64 + 0) = display corner_sprite ! (0 * 64 + 0)"
    using fr[rule_format, of 31 0] fr[rule_format, of 0 63] fr[rule_format, of 0 0] by auto
  then have "\<not> display c' ! (31 * 64 + 0)" "\<not> display c' ! (0 * 64 + 63)"
    "\<not> display c' ! (0 * 64 + 0)"
    by (simp_all add: 5)
  then show ?thesis using 1 2 5(2) c l by blast
qed

text \<open>
  C5, as stated, with a non-zero sprite whose set bits are all clipped: \<open>V[0] = 63\<close> puts
  the origin at \<open>(63, 31)\<close>, the sprite byte \<^verbatim>\<open>0x01\<close> has only its last column set, and the
  display is all off; both draws leave the display as it was and \<open>V[F] = 0\<close>. And with a
  set bit on a lit cell: the sprite \<^verbatim>\<open>0x80\<close> at \<open>(0, 0)\<close> on a display whose cell \<open>(0, 0)\<close>
  is on; the first draw turns the cell off, the second turns it on again without a
  collision, so the display is restored and \<open>V[F] = 0\<close> after the second draw.
\<close>

theorem redraw_flag_counterexample:
  "ram clipped_sprite ! unat (I clipped_sprite) = 0x01 \<and>
   display clipped_sprite = replicate 2048 False \<and>
   emulate_chip8 set_config 0 clipped_sprite =
     Inr (clipped_sprite\<lparr>inst := decode 0xD001, PC := 0x202, draw := True\<rparr>) \<and>
   emulate_chip8 set_config 0 (clipped_sprite\<lparr>inst := decode 0xD001, PC := 0x202, draw := True\<rparr>) =
     Inr (clipped_sprite\<lparr>inst := decode 0xD001, PC := 0x204, draw := True\<rparr>) \<and>
   V (clipped_sprite\<lparr>inst := decode 0xD001, PC := 0x204, draw := True\<rparr>) ! 0xF = 0 \<and>
   ram lit_pixel ! unat (I lit_pixel) = 0x80 \<and>
   emulate_chip8 set_config 0 lit_pixel =
     Inr (lit_pixel\<lparr>inst := decode 0xD001, PC := 0x202, draw := True,
                     V := (V lit_pixel)[0xF := 1], display := replicate 2048 False\<rparr>) \<and>
   emulate_chip8 set_config 0
       (lit_pixel\<lparr>inst := decode 0xD001, PC := 0x202, draw := True,
                     V := (V lit_pixel)[0xF := 1], display := replicate 2048 False\<rparr>) =
     Inr (lit_pixel\<lparr>inst := decode 0xD001, PC := 0x204, draw := True\<rparr>) \<and>
   V (lit_pixel\<lparr>inst := decode 0xD001, PC := 0x204, draw := True\<rparr>) ! 0xF = 0"
proof -
  have 1: "ram clipped_sprite ! unat (I clipped_sprite) = 0x01"
    "display clipped_sprite = replicate 2048 False" "V clipped_sprite ! 0xF = 0"
    "ram lit_pixel ! unat (I lit_pixel) = 0x80" "V lit_pixel ! 0xF = 0"
    by (simp_all add: clipped_sprite_def lit_pixel_def draw_state_def chip8_zero_def
        copy_into_def nth_append)
  have 2: "emulate_chip8 set_config 0 clipped_sprite =
     Inr (clipped_sprite\<lparr>inst := decode 0xD001, PC := 0x202, draw := True\<rparr>)"
    by (simp add: clipped_sprite_def draw_eval)
  have 3: "emulate_chip8 set_config 0 (clipped_sprite\<lparr>inst := decode 0xD001, PC := 0x202, draw := True\<rparr>) =
     Inr (clipped_sprite\<lparr>inst := decode 0xD001, PC := 0x204, draw := True\<rparr>)"
    by (simp add: clipped_sprite_def draw_eval)
  have 4: "emulate_chip8 set_config 0 lit_pixel =
     Inr (lit_pixel\<lparr>inst := decode 0xD001, PC := 0x202, draw := True,
                     V := (V lit_pixel)[0xF := 1], display := replicate 2048 False\<rparr>)"
    by (simp add: lit_pixel_def draw_eval)
  have 5: "emulate_chip8 set_config 0
       (lit_pixel\<lparr>inst := decode 0xD001, PC := 0x202, draw := True,
                     V := (V lit_pixel)[0xF := 1], display := replicate 2048 False\<rparr>) =
     Inr (lit_pixel\<lparr>inst := decode 0xD001, PC := 0x204, draw := True\<rparr>)"
    by (simp add: lit_pixel_def draw_eval)
  show ?thesis using 1 2 3 4 5 by simp
qed

lemma redraw_defined:
  assumes "window_width config = 64" and "window_height config = 32" and "wf_chip8 c"
    and "fetch c = Inr w" and "op_class w = 0xD"
    and "x0 = unat (V c ! unat (X (decode w))) mod 64"
    and "y0 = unat (V c ! unat (Y (decode w))) mod 32"
    and "\<forall>r < min (unat (N (decode w))) (32 - y0). unat (I c) + r < 4096"
  shows "\<exists>c1. emulate_chip8 config r1 c = Inr c1 \<and>
           (\<forall>y<32. \<forall>x<64. display c1 ! (y * 64 + x) =
              (display c ! (y * 64 + x) \<noteq>
                 sprite_covers (ram c) (unat (I c)) (unat (N (decode w))) x0 y0 x y)) \<and>
           (fetch c1 = Inr w \<and>
            V c1 ! unat (X (decode w)) = V c ! unat (X (decode w)) \<and>
            V c1 ! unat (Y (decode w)) = V c ! unat (Y (decode w)) \<longrightarrow>
              (\<exists>c2. emulate_chip8 config r2 c1 = Inr c2 \<and>
                    display c2 = display c \<and>
                    V c2 ! 0xF =
                      (if \<exists>y<32. \<exists>x<64.
                            sprite_covers (ram c) (unat (I c)) (unat (N (decode w))) x0 y0 x y \<and>
                            \<not> display c ! (y * 64 + x)
                       then 1 else 0)))"
proof -
  let ?c0 = "c\<lparr>inst := decode w, PC := PC c + 2\<rparr>"
  define S where "S = sprite_covers (ram c) (unat (I c)) (unat (N (decode w))) x0 y0"
  have wf0: "wf_chip8 ?c0" using assms(3) by (simp add: wf_chip8_def)
  have e: "emulate_chip8 config r1 c = exec_D config ?c0"
    by (rule emulate_draw[OF assms(4,5)])
  have x0: "x0 = unat (V ?c0 ! unat (X (inst ?c0))) mod 64"
    and y0: "y0 = unat (V ?c0 ! unat (Y (inst ?c0))) mod 32"
    and rd: "\<forall>r < min (unat (N (inst ?c0))) (32 - y0). unat (I ?c0) + r < 4096"
    using assms(6,7,8) by simp_all
  obtain D v where d: "exec_D config ?c0 = Inr (?c0\<lparr>V := v, display := D, draw := True\<rparr>)"
    "length D = 2048" "length v = 16"
    "\<forall>y<32. \<forall>x<64. D ! (y * 64 + x) = (display c ! (y * 64 + x) \<noteq> S x y)"
    using exec_D_spec[OF assms(1,2) wf0 x0 y0 rd] assms(3) unfolding S_def
    by (auto simp add: wf_chip8_def)
  define c1 where "c1 = ?c0\<lparr>V := v, display := D, draw := True\<rparr>"
  have e1: "emulate_chip8 config r1 c = Inr c1" using e d(1) by (simp add: c1_def)
  have c1f: "ram c1 = ram c" "I c1 = I c" "display c1 = D" "V c1 = v"
    by (simp_all add: c1_def)
  have second: "\<exists>c2. emulate_chip8 config r2 c1 = Inr c2 \<and> display c2 = display c \<and>
                    V c2 ! 0xF = (if \<exists>y<32. \<exists>x<64. S x y \<and> \<not> display c ! (y * 64 + x)
                                  then 1 else 0)"
    if a: "fetch c1 = Inr w" "V c1 ! unat (X (decode w)) = V c ! unat (X (decode w))"
      "V c1 ! unat (Y (decode w)) = V c ! unat (Y (decode w))"
  proof -
    let ?d0 = "c1\<lparr>inst := decode w, PC := PC c1 + 2\<rparr>"
    have wf1: "wf_chip8 ?d0"
      using assms(3) d(2,3) by (simp add: wf_chip8_def c1_def)
    have e2: "emulate_chip8 config r2 c1 = exec_D config ?d0"
      by (rule emulate_draw[OF a(1) assms(5)])
    have x1: "x0 = unat (V ?d0 ! unat (X (inst ?d0))) mod 64"
      and y1: "y0 = unat (V ?d0 ! unat (Y (inst ?d0))) mod 32"
      and rd1: "\<forall>r < min (unat (N (inst ?d0))) (32 - y0). unat (I ?d0) + r < 4096"
      using assms(6,7,8) a(2,3) by (simp_all add: c1f)
    obtain D2 where d2: "exec_D config ?d0 =
        Inr (?d0\<lparr>V := (V ?d0)[0xF := (if \<exists>y<32. \<exists>x<64. S x y \<and> D ! (y * 64 + x) then 1 else 0)],
                  display := D2, draw := True\<rparr>)"
      "length D2 = 2048"
      "\<forall>y<32. \<forall>x<64. D2 ! (y * 64 + x) = (D ! (y * 64 + x) \<noteq> S x y)"
      using exec_D_spec[OF assms(1,2) wf1 x1 y1 rd1] unfolding S_def
      by (auto simp add: c1f)
    have restored: "\<forall>y<32. \<forall>x<64. D2 ! (y * 64 + x) = display c ! (y * 64 + x)"
      using d2(3) d(4) by auto
    have lc: "length (display c) = 2048" using assms(3) by (simp add: wf_chip8_def)
    have deq: "D2 = display c" by (rule display_eqI[OF d2(2) lc restored])
    have hit: "(\<exists>y<32. \<exists>x<64. S x y \<and> D ! (y * 64 + x)) \<longleftrightarrow>
               (\<exists>y<32. \<exists>x<64. S x y \<and> \<not> display c ! (y * 64 + x))"
      using d(4) by auto
    show ?thesis
      unfolding e2 d2(1) hit using deq d(3) by (simp add: c1f)
  qed
  show ?thesis
    using e1 d(4) second unfolding S_def by (auto simp add: c1f)
qed

text \<open>
  C5 (amended): executing the same \<^verbatim>\<open>DXYN\<close> twice in succession, from a state where the
  coordinate registers and \<open>I\<close> are unchanged between the draws and the sprite bytes do not
  lie in the drawn display region (in the machine the sprite is in \<^verbatim>\<open>ram\<close> and the display is
  a separate array, and a draw changes neither \<open>I\<close> nor \<^verbatim>\<open>ram\<close>), restores the whole display
  to its contents before the first draw; after the second draw \<open>V[F]\<close> is 1 exactly when
  some set sprite bit lands on a cell inside the grid that was off before the first draw,
  and 0 otherwise. This holds of every first draw that completes, the second draw then
  completes as well, and the first draw completes exactly when every sprite row it reads,
  rows \<open>r < min N (32 - y0)\<close>, lies inside memory.
\<close>

theorem draw_twice:
  assumes "window_width config = 64" and "window_height config = 32" and "wf_chip8 c"
    and "fetch c = Inr w" and "op_class w = 0xD"
    and "x0 = unat (V c ! unat (X (decode w))) mod 64"
    and "y0 = unat (V c ! unat (Y (decode w))) mod 32"
  shows "(\<forall>c1. emulate_chip8 config r1 c = Inr c1 \<longrightarrow>
           I c1 = I c \<and> ram c1 = ram c \<and>
           (\<forall>y<32. \<forall>x<64. display c1 ! (y * 64 + x) =
              (display c ! (y * 64 + x) \<noteq>
                 sprite_covers (ram c) (unat (I c)) (unat (N (decode w))) x0 y0 x y)) \<and>
           (fetch c1 = Inr w \<and>
            V c1 ! unat (X (decode w)) = V c ! unat (X (decode w)) \<and>
            V c1 ! unat (Y (decode w)) = V c ! unat (Y (decode w)) \<longrightarrow>
              (\<exists>c2. emulate_chip8 config r2 c1 = Inr c2 \<and>
                    display c2 = display c \<and>
                    V c2 ! 0xF =
                      (if \<exists>y<32. \<exists>x<64.
                            sprite_covers (ram c) (unat (I c)) (unat (N (decode w))) x0 y0 x y \<and>
                            \<not> display c ! (y * 64 + x)
                       then 1 else 0)))) \<and>
         ((\<exists>c1. emulate_chip8 config r1 c = Inr c1) \<longleftrightarrow>
            (\<forall>r < min (unat (N (decode w))) (32 - y0). unat (I c) + r < 4096))"
proof -
  let ?c0 = "c\<lparr>inst := decode w, PC := PC c + 2\<rparr>"
  let ?rd = "\<forall>r < min (unat (N (decode w))) (32 - y0). unat (I c) + r < 4096"
  have wf0: "wf_chip8 ?c0" using assms(3) by (simp add: wf_chip8_def)
  have e: "emulate_chip8 config r1 c = exec_D config ?c0"
    by (rule emulate_draw[OF assms(4,5)])
  have x0: "x0 = unat (V ?c0 ! unat (X (inst ?c0))) mod 64"
    and y0: "y0 = unat (V ?c0 ! unat (Y (inst ?c0))) mod 32"
    using assms(6,7) by simp_all
  have reads: ?rd if "emulate_chip8 config r1 c = Inr c1" for c1
  proof -
    have "exec_D config ?c0 = Inr c1" using that e by simp
    from exec_D_reads[OF assms(1,2) wf0 this x0 y0] show ?thesis by simp
  qed
  have frame: "I c1 = I c \<and> ram c1 = ram c" if "emulate_chip8 config r1 c = Inr c1" for c1
  proof -
    have rd: ?rd by (rule reads[OF that])
    have "exec_D config ?c0 = Inr c1" using that e by simp
    moreover obtain D where "exec_D config ?c0 =
           Inr (?c0\<lparr>V := (V ?c0)[0xF :=
                    (if \<exists>y<32. \<exists>x<64.
                          sprite_covers (ram ?c0) (unat (I ?c0)) (unat (N (inst ?c0))) x0 y0 x y \<and>
                          display ?c0 ! (y * 64 + x)
                     then 1 else 0)],
                  display := D, draw := True\<rparr>)"
      using exec_D_spec[OF assms(1,2) wf0 x0 y0] rd by auto
    ultimately show ?thesis by auto
  qed
  have main: "\<exists>c1. emulate_chip8 config r1 c = Inr c1 \<and>
           (\<forall>y<32. \<forall>x<64. display c1 ! (y * 64 + x) =
              (display c ! (y * 64 + x) \<noteq>
                 sprite_covers (ram c) (unat (I c)) (unat (N (decode w))) x0 y0 x y)) \<and>
           (fetch c1 = Inr w \<and>
            V c1 ! unat (X (decode w)) = V c ! unat (X (decode w)) \<and>
            V c1 ! unat (Y (decode w)) = V c ! unat (Y (decode w)) \<longrightarrow>
              (\<exists>c2. emulate_chip8 config r2 c1 = Inr c2 \<and>
                    display c2 = display c \<and>
                    V c2 ! 0xF =
                      (if \<exists>y<32. \<exists>x<64.
                            sprite_covers (ram c) (unat (I c)) (unat (N (decode w))) x0 y0 x y \<and>
                            \<not> display c ! (y * 64 + x)
                       then 1 else 0)))"
    if ?rd
    by (rule redraw_defined[OF assms(1-7) that])
  have part1: "I c1 = I c \<and> ram c1 = ram c \<and>
           (\<forall>y<32. \<forall>x<64. display c1 ! (y * 64 + x) =
              (display c ! (y * 64 + x) \<noteq>
                 sprite_covers (ram c) (unat (I c)) (unat (N (decode w))) x0 y0 x y)) \<and>
           (fetch c1 = Inr w \<and>
            V c1 ! unat (X (decode w)) = V c ! unat (X (decode w)) \<and>
            V c1 ! unat (Y (decode w)) = V c ! unat (Y (decode w)) \<longrightarrow>
              (\<exists>c2. emulate_chip8 config r2 c1 = Inr c2 \<and>
                    display c2 = display c \<and>
                    V c2 ! 0xF =
                      (if \<exists>y<32. \<exists>x<64.
                            sprite_covers (ram c) (unat (I c)) (unat (N (decode w))) x0 y0 x y \<and>
                            \<not> display c ! (y * 64 + x)
                       then 1 else 0)))"
    if c1: "emulate_chip8 config r1 c = Inr c1" for c1
    using main[OF reads[OF c1]] frame[OF c1] c1 by auto
  have part2: "(\<exists>c1. emulate_chip8 config r1 c = Inr c1) \<longleftrightarrow> ?rd"
    using reads main by blast
  show ?thesis using part1 part2 by blast
qed

theorem draw_twice_witness:
  "wf_chip8 dark_pixel \<and> fetch dark_pixel = Inr 0xD001 \<and>
   display dark_pixel = replicate 2048 False \<and>
   (\<exists>c1 c2. emulate_chip8 set_config 0 dark_pixel = Inr c1 \<and> fetch c1 = Inr 0xD001 \<and>
      display c1 ! 0 \<and>
      emulate_chip8 set_config 0 c1 = Inr c2 \<and> display c2 = display dark_pixel \<and>
      V c2 ! 0xF = 1) \<and>
   wf_chip8 last_byte_sprite \<and> fetch last_byte_sprite = Inr 0xD002 \<and>
   V last_byte_sprite ! 0 = 31 \<and> I last_byte_sprite = 0xFFF \<and>
   (\<exists>c1. emulate_chip8 set_config 0 last_byte_sprite = Inr c1)"
proof -
  have e1: "wf_chip8 last_byte_sprite"
    by (simp add: last_byte_sprite_def draw_state_def wf_chip8_def chip8_zero_def copy_into_def)
  have e2: "fetch last_byte_sprite = Inr 0xD002"
    by (simp add: last_byte_sprite_def draw_state_def chip8_zero_def fetch_def ram_read_def
        copy_into_def nth_append)
  have e3: "op_class 0xD002 = 0xD" "X (decode 0xD002) = 0" "Y (decode 0xD002) = 0"
    "N (decode 0xD002) = 2"
    by (simp_all add: op_class_def decode_def)
  have e5: "I last_byte_sprite = 0xFFF" "V last_byte_sprite ! 0 = 31"
    by (simp_all add: last_byte_sprite_def draw_state_def chip8_zero_def)
  have e7: "(31::nat) = unat (V last_byte_sprite ! unat (X (decode 0xD002))) mod 64"
    "(31::nat) = unat (V last_byte_sprite ! unat (Y (decode 0xD002))) mod 32"
    by (simp_all add: e3 e5)
  have 1: "wf_chip8 dark_pixel"
    unfolding dark_pixel_def by (rule wf_draw_state) simp_all
  have 2: "fetch dark_pixel = Inr 0xD001"
    by (simp add: dark_pixel_def fetch_draw_state)
  have 3: "op_class 0xD001 = 0xD" "X (decode 0xD001) = 0" "Y (decode 0xD001) = 0"
    "N (decode 0xD001) = 1"
    by (simp_all add: op_class_def decode_def)
  have 4: "window_width set_config = 64" "window_height set_config = 32"
    by (simp_all add: set_config_def)
  have 5: "I dark_pixel = 0x300" "V dark_pixel ! 0 = 0" "display dark_pixel = replicate 2048 False"
    "ram dark_pixel ! 0x300 = 0x80"
    by (simp_all add: dark_pixel_def draw_state_def chip8_zero_def copy_into_def nth_append)
  have 6: "unat (I dark_pixel) + unat (N (decode 0xD001)) \<le> 4096" by (simp add: 3 5)
  have 7: "(0::nat) = unat (V dark_pixel ! unat (X (decode 0xD001))) mod 64"
    "(0::nat) = unat (V dark_pixel ! unat (Y (decode 0xD001))) mod 32"
    by (simp_all add: 3 5)
  let ?c1 = "dark_pixel\<lparr>inst := decode 0xD001, PC := 0x202, draw := True,
                         display := (replicate 2048 False)[0 := True]\<rparr>"
  have first: "emulate_chip8 set_config 0 dark_pixel = Inr ?c1"
    by (simp add: dark_pixel_def draw_eval)
  have f1: "fetch ?c1 = Inr 0xD001"
    by (simp add: dark_pixel_def draw_state_def chip8_zero_def fetch_def ram_read_def
        copy_into_def nth_append)
  have cov: "sprite_covers (ram dark_pixel) (unat (I dark_pixel)) (unat (N (decode 0xD001))) 0 0 0 0"
    by (simp add: sprite_covers_def 3 5)
  have hit: "\<exists>y<32. \<exists>x<64.
       sprite_covers (ram dark_pixel) (unat (I dark_pixel)) (unat (N (decode 0xD001))) 0 0 x y \<and>
       \<not> display dark_pixel ! (y * 64 + x)"
    using cov by (intro exI[of _ 0] conjI) (simp_all add: 5)
  obtain c2 where c2: "emulate_chip8 set_config 0 ?c1 = Inr c2" "display c2 = display dark_pixel"
    "V c2 ! 0xF = 1"
  proof -
    note t = draw_twice[OF 4 1 2 3(1) 7, where ?r1.0=0 and ?r2.0=0]
    have v: "V ?c1 ! unat (X (decode 0xD001)) = V dark_pixel ! unat (X (decode 0xD001))"
      "V ?c1 ! unat (Y (decode 0xD001)) = V dark_pixel ! unat (Y (decode 0xD001))"
      by simp_all
    have "\<exists>c2. emulate_chip8 set_config 0 ?c1 = Inr c2 \<and> display c2 = display dark_pixel \<and>
            V c2 ! 0xF =
              (if \<exists>y<32. \<exists>x<64.
                    sprite_covers (ram dark_pixel) (unat (I dark_pixel))
                      (unat (N (decode 0xD001))) 0 0 x y \<and>
                    \<not> display dark_pixel ! (y * 64 + x)
               then 1 else 0)"
      using t first f1 v by blast
    then show ?thesis using hit that by auto
  qed
  have edge: "\<exists>c1. emulate_chip8 set_config 0 last_byte_sprite = Inr c1"
  proof -
    have "\<forall>r < min (unat (N (decode 0xD002))) (32 - 31). unat (I last_byte_sprite) + r < 4096"
      by (simp add: e3 e5)
    then show ?thesis
      using draw_twice[OF 4 e1 e2 e3(1) e7, where ?r1.0=0 and ?r2.0=0] by blast
  qed
  have main: "\<exists>c1 c2. emulate_chip8 set_config 0 dark_pixel = Inr c1 \<and> fetch c1 = Inr 0xD001 \<and>
      display c1 ! 0 \<and>
      emulate_chip8 set_config 0 c1 = Inr c2 \<and> display c2 = display dark_pixel \<and>
      V c2 ! 0xF = 1"
    using first f1 c2 by (intro exI[of _ ?c1] exI[of _ c2]) simp_all
  show ?thesis
    using 1 2 5(3) main e1 e2 e5 edge by blast
qed

end
